theory Spec2Isabelle
  imports Main "HOL-Library.Sublist"
begin

section \<open>Python values used by \<open>torch/_inductor/bisect_helper.py\<close>\<close>

text \<open>
  Exceptions are values. An exception raised by the module carries the message of its
  \<open>raise\<close> statement, one raised by Python itself the fixed part of Python's
  message; \<open>SystemExit\<close> carries the exit status given to \<open>sys.exit\<close>.
\<close>

datatype error =
    RuntimeError string
  | ValueError string
  | KeyError string
  | IndexError
  | StopIteration
  | SystemExit int

subsection \<open>\<open>str\<close> methods\<close>

text \<open>\<open>s.startswith(p)\<close> and \<open>s.endswith(p)\<close>.\<close>

definition startswith :: "string \<Rightarrow> string \<Rightarrow> bool" where
  "startswith s p = (take (length p) s = p)"

definition endswith :: "string \<Rightarrow> string \<Rightarrow> bool" where
  "endswith s p = (length p \<le> length s \<and> drop (length s - length p) s = p)"

text \<open>
  A \<open>char\<close> stands for a code point below \<open>U+0100\<close>. \<open>str.isspace\<close> on one of
  them: tab, line feed, vertical tab, form feed, carriage return, the four separators
  \<open>0x1C\<close> .. \<open>0x1F\<close>, the space, the next-line control \<open>0x85\<close> and the no-break
  space \<open>0xA0\<close>.
\<close>

definition isspace :: "char \<Rightarrow> bool" where
  "isspace c = (c \<in> set [CHR 0x09, CHR 0x0A, CHR 0x0B, CHR 0x0C, CHR 0x0D,
                          CHR 0x1C, CHR 0x1D, CHR 0x1E, CHR 0x1F, CHR 0x20,
                          CHR 0x85, CHR 0xA0])"

text \<open>\<open>s.strip()\<close>: white space removed at both ends.\<close>

definition strip :: "string \<Rightarrow> string" where
  "strip s = rev (dropWhile isspace (rev (dropWhile isspace s)))"

text \<open>\<open>s.split(sep)\<close> for a separator of one character: every piece, empty ones too.\<close>

fun split :: "char \<Rightarrow> string \<Rightarrow> string list" where
  "split sep [] = [[]]"
| "split sep (c # cs) =
     (if c = sep then [] # split sep cs
      else (case split sep cs of
              [] \<Rightarrow> [[c]]
            | p # ps \<Rightarrow> (c # p) # ps))"

text \<open>\<open>xs[i]\<close> for a non-negative constant index: out of range raises \<open>IndexError\<close>.\<close>

definition item :: "'a list \<Rightarrow> nat \<Rightarrow> error + 'a" where
  "item xs i = (if i < length xs then Inr (xs ! i) else Inl IndexError)"

subsection \<open>\<open>str(n)\<close> and \<open>int(s)\<close> on decimal integers\<close>

definition digit_char :: "nat \<Rightarrow> char" where
  "digit_char d = ''0123456789'' ! d"

text \<open>\<open>xs.index(x)\<close>: the first position of \<open>x\<close>, \<open>None\<close> where Python raises \<open>ValueError\<close>.\<close>

fun index_of :: "'a list \<Rightarrow> 'a \<Rightarrow> nat option" where
  "index_of [] x = None"
| "index_of (y # ys) x =
     (if y = x then Some 0 else map_option Suc (index_of ys x))"

text \<open>The value of a decimal digit is its position among the ten digits.\<close>

definition digit_value :: "char \<Rightarrow> nat option" where
  "digit_value c = index_of ''0123456789'' c"

text \<open>The decimal digits of a natural number, most significant first.\<close>

fun str_nat :: "nat \<Rightarrow> string" where
  "str_nat n = (if n < 10 then [digit_char n] else str_nat (n div 10) @ [digit_char (n mod 10)])"

declare str_nat.simps [simp del]

text \<open>\<open>str(n)\<close>, which is also what the f-string \<open>f"{n}"\<close> produces for an \<open>int\<close>.\<close>

definition str_int :: "int \<Rightarrow> string" where
  "str_int n = (if n < 0 then CHR ''-'' # str_nat (nat (- n)) else str_nat (nat n))"

text \<open>
  The value of a string of digits, read left to right with an accumulator;
  \<open>None\<close> when a character is not a digit.
\<close>

fun digits_value :: "nat \<Rightarrow> string \<Rightarrow> nat option" where
  "digits_value acc [] = Some acc"
| "digits_value acc (c # cs) =
     (case digit_value c of
        None \<Rightarrow> None
      | Some d \<Rightarrow> digits_value (10 * acc + d) cs)"

text \<open>
  Python lets single underscores separate the digits of an integer literal given to
  \<open>int\<close>: an underscore must stand between two digits.
\<close>

fun underscores_ok :: "string \<Rightarrow> bool" where
  "underscores_ok [] = True"
| "underscores_ok [c] = (c \<noteq> CHR ''_'')"
| "underscores_ok (c # d # cs) =
     (if c = CHR ''_'' then False
      else if d = CHR ''_'' then (cs \<noteq> [] \<and> hd cs \<noteq> CHR ''_'' \<and> underscores_ok cs)
      else underscores_ok (d # cs))"

definition int_unsigned :: "string \<Rightarrow> error + nat" where
  "int_unsigned s =
     (if s = [] \<or> \<not> underscores_ok s then Inl (ValueError ''invalid literal for int()'')
      else (case digits_value 0 (filter (\<lambda>c. c \<noteq> CHR ''_'') s) of
              None \<Rightarrow> Inl (ValueError ''invalid literal for int()'')
            | Some n \<Rightarrow> Inr n))"

text \<open>
  The white space that \<open>int\<close> ignores around the number: that of \<open>str.isspace\<close>
  without the four separators \<open>0x1C\<close> .. \<open>0x1F\<close>.
\<close>

definition int_isspace :: "char \<Rightarrow> bool" where
  "int_isspace c = (c \<in> set [CHR 0x09, CHR 0x0A, CHR 0x0B, CHR 0x0C, CHR 0x0D, CHR 0x20,
                              CHR 0x85, CHR 0xA0])"

definition int_strip :: "string \<Rightarrow> string" where
  "int_strip s = rev (dropWhile int_isspace (rev (dropWhile int_isspace s)))"

text \<open>
  \<open>int(s)\<close> in base ten on code points below \<open>U+0100\<close>: surrounding white space is
  ignored, one sign is allowed, anything else raises \<open>ValueError\<close>. Python's limit on
  the number of digits (4300 by default, for \<open>int\<close> and for \<open>str\<close> alike) is not
  modelled: no counter of a run comes near it.
\<close>

definition py_int :: "string \<Rightarrow> error + int" where
  "py_int s =
     (case int_strip s of
        [] \<Rightarrow> Inl (ValueError ''invalid literal for int()'')
      | c # cs \<Rightarrow>
          if c = CHR ''-'' then
            (case int_unsigned cs of Inl e \<Rightarrow> Inl e | Inr n \<Rightarrow> Inr (- int n))
          else if c = CHR ''+'' then
            (case int_unsigned cs of Inl e \<Rightarrow> Inl e | Inr n \<Rightarrow> Inr (int n))
          else
            (case int_unsigned (c # cs) of Inl e \<Rightarrow> Inl e | Inr n \<Rightarrow> Inr (int n)))"

subsection \<open>Text files and paths\<close>

text \<open>
  Reading a text file translates \<open>\r\n\<close> and a lone \<open>\r\<close> to \<open>\n\<close> (Python's
  universal newlines); \<open>readlines\<close> then cuts after every \<open>\n\<close> and keeps it.
\<close>

fun universal_newlines :: "string \<Rightarrow> string" where
  "universal_newlines [] = []"
| "universal_newlines [c] = (if c = CHR 0x0D then [CHR 0x0A] else [c])"
| "universal_newlines (c # d # cs) =
     (if c = CHR 0x0D then
        (if d = CHR 0x0A then CHR 0x0A # universal_newlines cs
         else CHR 0x0A # universal_newlines (d # cs))
      else c # universal_newlines (d # cs))"

fun keepends :: "string \<Rightarrow> string list" where
  "keepends [] = []"
| "keepends (c # cs) =
     (if c = CHR 0x0A then [c] # keepends cs
      else (case keepends cs of
              [] \<Rightarrow> [[c]]
            | l # ls \<Rightarrow> (c # l) # ls))"

definition readlines :: "string \<Rightarrow> string list" where
  "readlines content = keepends (universal_newlines content)"

text \<open>\<open>file.writelines(lines)\<close> on a file opened with \<open>"w"\<close>: the lines, concatenated.\<close>

definition writelines :: "string list \<Rightarrow> string" where
  "writelines lines = concat lines"

text \<open>\<open>os.path.join\<close> of \<open>posixpath\<close>.\<close>

definition join2 :: "string \<Rightarrow> string \<Rightarrow> string" where
  "join2 path b =
     (if startswith b ''/'' then b
      else if path = [] \<or> endswith path ''/'' then path @ b
      else path @ ''/'' @ b)"

definition path_join :: "string \<Rightarrow> string list \<Rightarrow> string" where
  "path_join a p = foldl join2 a p"

section \<open>Module state\<close>

text \<open>
  The state the module works on: the process environment (\<open>os.environ\<close>; the module
  never writes it, so the \<open>lru_cache\<close> on \<open>get_env_val\<close> is invisible), the value of
  \<open>cache_dir()\<close>, which is imported from another module, the text files of the file
  system by path, the two module-level dictionaries, and the class attribute
  \<open>BisectionManager.bisection_enabled\<close>. The field \<open>world\<close> is whatever else the
  process holds: it belongs to the predicate \<open>fn\<close> handed to the bisection, and no
  function of this module reads or writes it.
\<close>

record 'w state =
  environ :: "string \<rightharpoonup> string"
  cache_root :: string
  files :: "string \<rightharpoonup> string"
  subsystem_call_counter :: "string \<rightharpoonup> int"
  call_counter_debug_info :: "int \<rightharpoonup> string"
  bisection_enabled :: bool
  world :: 'w

definition SUBDIR_NAME :: string where
  "SUBDIR_NAME = ''bisect''"

text \<open>The dictionary \<open>BACKENDS\<close>, in insertion order.\<close>

definition BACKENDS :: "(string \<times> string list) list" where
  "BACKENDS =
     [(''eager'', []),
      (''aot_eager'', []),
      (''aot_eager_decomp_partition'', [''decomposition'']),
      (''inductor'', [''post_grad_passes'', ''lowerings''])]"

definition reset_counters :: "'w state \<Rightarrow> 'w state" where
  "reset_counters st =
     st\<lparr>subsystem_call_counter := Map.empty, call_counter_debug_info := Map.empty\<rparr>"

definition get_env_val :: "'w state \<Rightarrow> string \<Rightarrow> string option" where
  "get_env_val st env_str = environ st env_str"

text \<open>
  The walrus test \<open>if val := get_env_val(...)\<close>: the value when it is neither \<open>None\<close>
  nor the empty string.
\<close>

definition truthy :: "string option \<Rightarrow> string option" where
  "truthy v = (case v of None \<Rightarrow> None | Some s \<Rightarrow> if s = [] then None else Some s)"

section \<open>\<open>BisectionManager\<close>: the persistent store\<close>

definition get_dir :: "'w state \<Rightarrow> string" where
  "get_dir st = cache_root st @ ''/'' @ SUBDIR_NAME"

definition write_lines_to_file :: "string \<Rightarrow> string list \<Rightarrow> 'w state \<Rightarrow> 'w state" where
  "write_lines_to_file file_path lines st =
     st\<lparr>files := (files st)(file_path \<mapsto> writelines lines)\<rparr>"

definition read_lines_from_file :: "'w state \<Rightarrow> string \<Rightarrow> string list" where
  "read_lines_from_file st file_path =
     (case files st file_path of
        Some content \<Rightarrow> readlines content
      | None \<Rightarrow> [])"

definition run_state_path :: "'w state \<Rightarrow> string \<Rightarrow> string \<Rightarrow> string" where
  "run_state_path st backend_name subsystem_name =
     path_join (get_dir st) [backend_name, subsystem_name @ ''_run_state.txt'']"

definition bisect_range_path :: "'w state \<Rightarrow> string \<Rightarrow> string \<Rightarrow> string" where
  "bisect_range_path st backend_name subsystem_name =
     path_join (get_dir st) [backend_name, subsystem_name @ ''_bisect_range.txt'']"

definition bisect_status_path :: "'w state \<Rightarrow> string" where
  "bisect_status_path st = path_join (get_dir st) [''bisect_status.txt'']"

definition update_run_state :: "string \<Rightarrow> string \<Rightarrow> string \<Rightarrow> 'w state \<Rightarrow> 'w state" where
  "update_run_state backend_name subsystem_name run_state st =
     write_lines_to_file (run_state_path st backend_name subsystem_name) [run_state] st"

definition update_bisect_status :: "string \<Rightarrow> string \<Rightarrow> 'w state \<Rightarrow> 'w state" where
  "update_bisect_status backend_name subsystem_name st =
     write_lines_to_file (bisect_status_path st)
       [''backend='' @ backend_name @ [CHR 0x0A], ''subsystem='' @ subsystem_name @ [CHR 0x0A]] st"

definition update_bisect_range :: "string \<Rightarrow> string \<Rightarrow> int \<Rightarrow> int \<Rightarrow> 'w state \<Rightarrow> 'w state" where
  "update_bisect_range backend_name subsystem_name low high st =
     write_lines_to_file (bisect_range_path st backend_name subsystem_name)
       [''low='' @ str_int low @ [CHR 0x0A], ''high='' @ str_int high @ [CHR 0x0A]] st"

text \<open>\<open>line.strip().split("=")[1]\<close>\<close>

definition field_value :: "string \<Rightarrow> error + string" where
  "field_value line = item (split CHR ''='' (strip line)) 1"

text \<open>
  The loop of \<open>get_backend\<close> and \<open>get_subsystem\<close>: the value of the first line that
  starts with the key, the empty string when there is none.
\<close>

fun first_field :: "string \<Rightarrow> string list \<Rightarrow> error + string" where
  "first_field key [] = Inr []"
| "first_field key (line # lines) =
     (if startswith line key then field_value line else first_field key lines)"

definition get_backend :: "'w state \<Rightarrow> error + string" where
  "get_backend st =
     (case truthy (get_env_val st ''TORCH_BISECT_BACKEND'') of
        Some val \<Rightarrow> Inr val
      | None \<Rightarrow> first_field ''backend='' (read_lines_from_file st (bisect_status_path st)))"

definition get_subsystem :: "'w state \<Rightarrow> error + string" where
  "get_subsystem st =
     (case truthy (get_env_val st ''TORCH_BISECT_SUBSYSTEM'') of
        Some val \<Rightarrow> Inr val
      | None \<Rightarrow> first_field ''subsystem='' (read_lines_from_file st (bisect_status_path st)))"

definition get_run_state :: "'w state \<Rightarrow> string \<Rightarrow> string \<Rightarrow> string" where
  "get_run_state st backend_name subsystem_name =
     (case read_lines_from_file st (run_state_path st backend_name subsystem_name) of
        line # _ \<Rightarrow> strip line
      | [] \<Rightarrow> [])"

text \<open>
  The loop of \<open>get_bisect_range\<close> over the reversed lines: \<open>low\<close> and \<open>high\<close> start as
  \<open>None\<close>, a line that starts with \<open>low=\<close> or \<open>high=\<close> sets one of them (and \<open>int\<close> may
  raise), and the loop breaks as soon as both are set.
\<close>

definition int_field :: "string \<Rightarrow> error + int" where
  "int_field line = (case field_value line of Inl e \<Rightarrow> Inl e | Inr v \<Rightarrow> py_int v)"

fun scan_range :: "string list \<Rightarrow> int option \<Rightarrow> int option \<Rightarrow> error + (int option \<times> int option)" where
  "scan_range [] low high = Inr (low, high)"
| "scan_range (line # lines) low high =
     (case (if startswith line ''low='' then
              (case int_field line of Inl e \<Rightarrow> Inl e | Inr v \<Rightarrow> Inr (Some v, high))
            else if startswith line ''high='' then
              (case int_field line of Inl e \<Rightarrow> Inl e | Inr v \<Rightarrow> Inr (low, Some v))
            else Inr (low, high)) of
        Inl e \<Rightarrow> Inl e
      | Inr (low', high') \<Rightarrow>
          if low' \<noteq> None \<and> high' \<noteq> None then Inr (low', high')
          else scan_range lines low' high')"

definition get_bisect_range :: "'w state \<Rightarrow> string \<Rightarrow> string \<Rightarrow> error + (int \<times> int)" where
  "get_bisect_range st backend_name subsystem_name =
     (case scan_range (rev (read_lines_from_file st
                              (bisect_range_path st backend_name subsystem_name))) None None of
        Inl e \<Rightarrow> Inl e
      | Inr (Some low, Some high) \<Rightarrow> Inr (low, high)
      | Inr _ \<Rightarrow>
          Inl (RuntimeError (''Trying to get bisect range when it is not set: subsystem ''
                             @ subsystem_name)))"

text \<open>
  \<open>shutil.rmtree(get_dir())\<close>: every file below the directory is gone. Directories are
  not tracked, so the two branches of \<open>delete_bisect_status\<close> differ only in what they
  print.
\<close>

definition delete_bisect_status :: "'w state \<Rightarrow> 'w state" where
  "delete_bisect_status st =
     st\<lparr>files := (\<lambda>p. if startswith p (get_dir st @ ''/'') then None else files st p)\<rparr>"

section \<open>\<open>BisectionManager\<close>: the call counter and the guard hook\<close>

text \<open>\<open>subsystem_call_counter\<close> is a \<open>collections.Counter\<close>: a missing key reads as 0.\<close>

definition get_system_counter :: "string \<Rightarrow> bool \<Rightarrow> 'w state \<Rightarrow> int \<times> 'w state" where
  "get_system_counter name increment st =
     (let curr = (case subsystem_call_counter st name of None \<Rightarrow> 0 | Some c \<Rightarrow> c)
      in (curr,
          if increment
          then st\<lparr>subsystem_call_counter := (subsystem_call_counter st)(name \<mapsto> curr + 1)\<rparr>
          else st))"

text \<open>\<open>call_counter_debug_info[call_counter] = info\<close>\<close>

definition set_debug_info :: "int \<Rightarrow> string \<Rightarrow> 'w state \<Rightarrow> 'w state" where
  "set_debug_info call_counter info st =
     st\<lparr>call_counter_debug_info := (call_counter_debug_info st)(call_counter \<mapsto> info)\<rparr>"

definition disable_subsystem ::
  "string \<Rightarrow> string \<Rightarrow> (unit \<Rightarrow> string) option \<Rightarrow> 'w state \<Rightarrow> (error + bool) \<times> 'w state" where
  "disable_subsystem backend subsystem debug_info st =
     (if \<not> bisection_enabled st then (Inr False, st)
      else
       (case get_backend st of
          Inl e \<Rightarrow> (Inl e, st)
        | Inr cursor_backend \<Rightarrow>
           (if cursor_backend \<noteq> backend then (Inr False, st)
            else
             (case get_subsystem st of
                Inl e \<Rightarrow> (Inl e, st)
              | Inr cursor_subsystem \<Rightarrow>
                 (if cursor_subsystem \<noteq> subsystem then (Inr False, st)
                  else
                   (case truthy (get_env_val st ''TORCH_BISECT_MAX'') of
                      Some val \<Rightarrow>
                        (case get_system_counter subsystem True st of
                           (counter, st1) \<Rightarrow>
                             (case py_int val of
                                Inl e \<Rightarrow> (Inl e, st1)
                              | Inr limit \<Rightarrow> (Inr (counter > limit), st1)))
                    | None \<Rightarrow>
                        (let run_state = get_run_state st backend subsystem in
                         if run_state = ''test_disable'' then (Inr True, st)
                         else if run_state = ''find_max_bounds'' then
                           (case get_system_counter subsystem True st of
                              (counter, st1) \<Rightarrow>
                                (Inr False, update_bisect_range backend subsystem 0 counter st1))
                         else
                           (case get_bisect_range st backend subsystem of
                              Inl e \<Rightarrow> (Inl e, st)
                            | Inr (low, high) \<Rightarrow>
                                (let midpoint = (low + high) div 2 in
                                  (case get_system_counter subsystem True st of
                                     (call_counter, st1) \<Rightarrow>
                                       (Inr (call_counter > midpoint),
                                        if call_counter \<ge> low \<and> call_counter \<le> high
                                           \<and> low - high \<le> 2 \<and> debug_info \<noteq> None
                                        then set_debug_info call_counter ((the debug_info) ()) st1
                                        else st1)))))))))))"

section \<open>\<open>BisectionManager\<close>: the traversal and the state machine\<close>

text \<open>\<open>not v\<close> for a value of type \<open>Optional[str]\<close>.\<close>

definition falsy :: "string option \<Rightarrow> bool" where
  "falsy v = (case v of None \<Rightarrow> True | Some s \<Rightarrow> s = [])"

definition advance_subsystem ::
  "string \<Rightarrow> string \<Rightarrow> 'w state \<Rightarrow> (error + string option) \<times> 'w state" where
  "advance_subsystem curr_backend curr_subsystem st =
     (case map_of BACKENDS curr_backend of
        None \<Rightarrow> (Inl (KeyError curr_backend), st)
      | Some current_subsystems \<Rightarrow>
         (case index_of current_subsystems curr_subsystem of
            None \<Rightarrow> (Inl (ValueError ''is not in list''), st)
          | Some current_subsystem_index \<Rightarrow>
              if int current_subsystem_index < int (length current_subsystems) - 1 then
                (let next_subsystem = current_subsystems ! (current_subsystem_index + 1) in
                 (Inr (Some next_subsystem),
                  update_run_state curr_backend next_subsystem ''test_disable''
                    (update_bisect_status curr_backend next_subsystem st)))
              else (Inr None, st)))"

definition advance_backend :: "string \<Rightarrow> 'w state \<Rightarrow> (error + string option) \<times> 'w state" where
  "advance_backend curr_backend st =
     (case index_of (map fst BACKENDS) curr_backend of
        None \<Rightarrow> (Inl (ValueError ''is not in list''), st)
      | Some current_system_index \<Rightarrow>
          if int current_system_index < int (length BACKENDS) - 1 then
            (let next_backend = map fst BACKENDS ! (current_system_index + 1) in
             (Inr (Some next_backend), update_bisect_status next_backend [] st))
          else (Inr None, st))"

text \<open>
  The predicate \<open>fn\<close> is a call into the caller's code: it may change the state (it
  runs the workload, whose guarded call-sites call \<open>disable_subsystem\<close>), and it
  returns a boolean or raises.
\<close>

type_synonym 'w predicate = "'w state \<Rightarrow> (error + bool) \<times> 'w state"

text \<open>
  \<open>perform_bisection\<close> is a \<open>while True\<close> loop, and nothing bounds the number of its
  rounds. The first argument is the number of rounds the model may run: \<open>None\<close> means
  that the loop was still running after that many. At the end of a round that did not
  return or raise, \<open>sys.exit(0)\<close> raises \<open>SystemExit\<close> when \<open>cli_interface\<close> is set.
\<close>

fun perform_bisection ::
  "nat \<Rightarrow> string \<Rightarrow> string \<Rightarrow> 'w predicate \<Rightarrow> bool \<Rightarrow> 'w state
     \<Rightarrow> ((error + bool) \<times> 'w state) option" where
  "perform_bisection 0 curr_backend curr_subsystem fn cli_interface st = None"
| "perform_bisection (Suc rounds) curr_backend curr_subsystem fn cli_interface st =
     (let run_state = get_run_state st curr_backend curr_subsystem;
          st0 = reset_counters st
      in
      if run_state = ''test_disable'' then
        (case fn st0 of
           (Inl e, st1) \<Rightarrow> Some (Inl e, st1)
         | (Inr issue_fixed, st1) \<Rightarrow>
            (if \<not> issue_fixed then
               (case advance_subsystem curr_backend curr_subsystem st1 of
                  (Inl e, st2) \<Rightarrow> Some (Inl e, st2)
                | (Inr next_subsystem, st2) \<Rightarrow>
                   (if falsy next_subsystem then Some (Inr False, st2)
                    else if cli_interface then Some (Inl (SystemExit 0), st2)
                    else perform_bisection rounds curr_backend (the next_subsystem)
                           fn cli_interface st2))
             else
               (let st2 = update_run_state curr_backend curr_subsystem ''find_max_bounds'' st1 in
                if cli_interface then Some (Inl (SystemExit 0), st2)
                else perform_bisection rounds curr_backend curr_subsystem fn cli_interface st2)))
      else if run_state = ''find_max_bounds'' then
        (case fn st0 of
           (Inl e, st1) \<Rightarrow> Some (Inl e, st1)
         | (Inr issue_fixed, st1) \<Rightarrow>
            (if issue_fixed then
               Some (Inl (RuntimeError
                            (''Function succeeded with 'find_max_bounds' status for ''
                             @ curr_backend @ '' - '' @ curr_subsystem @ ''.'')), st1)
             else
               (case get_bisect_range st1 curr_backend curr_subsystem of
                  Inl e \<Rightarrow> Some (Inl e, st1)
                | Inr (_, high) \<Rightarrow>
                   (let st2 = update_run_state curr_backend curr_subsystem ''bisect'' st1 in
                    if cli_interface then Some (Inl (SystemExit 0), st2)
                    else perform_bisection rounds curr_backend curr_subsystem
                           fn cli_interface st2))))
      else if run_state = ''bisect'' then
        (case get_bisect_range st0 curr_backend curr_subsystem of
           Inl e \<Rightarrow> Some (Inl e, st0)
         | Inr (low, high) \<Rightarrow>
            (let midpoint = (low + high) div 2 in
              (case fn st0 of
                 (Inl e, st1) \<Rightarrow> Some (Inl e, st1)
               | (Inr issue_fixed, st1) \<Rightarrow>
                  (let st2 = (if issue_fixed
                              then update_bisect_range curr_backend curr_subsystem
                                     (midpoint + 1) high st1
                              else update_bisect_range curr_backend curr_subsystem
                                     low midpoint st1)
                   in
                    (case get_bisect_range st2 curr_backend curr_subsystem of
                       Inl e \<Rightarrow> Some (Inl e, st2)
                     | Inr (low', high') \<Rightarrow>
                        (if low' = high' then Some (Inr True, st2)
                         else if cli_interface then Some (Inl (SystemExit 0), st2)
                         else perform_bisection rounds curr_backend curr_subsystem
                                fn cli_interface st2))))))
      else Some (Inl (RuntimeError (''Unexpected run_state '' @ run_state)), st0))"

definition initialize_system :: "'w state \<Rightarrow> (error + unit) \<times> 'w state" where
  "initialize_system st =
     (case map fst BACKENDS of
        [] \<Rightarrow> (Inl StopIteration, st)
      | curr_backend # _ \<Rightarrow> (Inr (), update_bisect_status curr_backend [] st))"

text \<open>
  The loop of \<open>do_bisect\<close>. Each round of it gives \<open>perform_bisection\<close> the rounds it
  has itself.
\<close>

fun do_bisect_loop ::
  "nat \<Rightarrow> 'w predicate \<Rightarrow> bool \<Rightarrow> string \<Rightarrow> string \<Rightarrow> 'w state
     \<Rightarrow> ((error + (string list \<times> int)) \<times> 'w state) option" where
  "do_bisect_loop 0 fn cli_interface curr_backend curr_subsystem st = None"
| "do_bisect_loop (Suc rounds) fn cli_interface curr_backend curr_subsystem st =
     (let st0 = reset_counters st in
      if curr_subsystem \<noteq> [] then
        (case perform_bisection (Suc rounds) curr_backend curr_subsystem fn cli_interface st0 of
           None \<Rightarrow> None
         | Some (Inl e, st1) \<Rightarrow> Some (Inl e, st1)
         | Some (Inr result, st1) \<Rightarrow>
            (if result then
               (case get_subsystem st1 of
                  Inl e \<Rightarrow> Some (Inl e, st1)
                | Inr found_subsystem \<Rightarrow>
                   (case get_bisect_range st1 curr_backend found_subsystem of
                      Inl e \<Rightarrow> Some (Inl e, st1)
                    | Inr (low, _) \<Rightarrow> Some (Inr ([curr_backend, found_subsystem], low), st1)))
             else
               (case advance_subsystem curr_backend curr_subsystem st1 of
                  (Inl e, st2) \<Rightarrow> Some (Inl e, st2)
                | (Inr next_subsystem, st2) \<Rightarrow>
                   (if falsy next_subsystem then Some (Inr ([curr_backend], 0), st2)
                    else if cli_interface then Some (Inl (SystemExit 0), st2)
                    else do_bisect_loop rounds fn cli_interface curr_backend
                           (the next_subsystem) st2))))
      else
        (case fn st0 of
           (Inl e, st1) \<Rightarrow> Some (Inl e, st1)
         | (Inr passed, st1) \<Rightarrow>
            (if passed then
               (case advance_backend curr_backend st1 of
                  (Inl e, st2) \<Rightarrow> Some (Inl e, st2)
                | (Inr next_backend, st2) \<Rightarrow>
                   (if falsy next_backend then Some (Inr ([], 0), st2)
                    else if cli_interface then Some (Inl (SystemExit 0), st2)
                    else do_bisect_loop rounds fn cli_interface (the next_backend)
                           curr_subsystem st2))
             else
               (case map_of BACKENDS curr_backend of
                  None \<Rightarrow> Some (Inl (KeyError curr_backend), st1)
                | Some current_subsystems \<Rightarrow>
                   (case current_subsystems of
                      [] \<Rightarrow> Some (Inr ([curr_backend], 0), st1)
                    | first_subsystem # _ \<Rightarrow>
                       (let st2 = update_run_state curr_backend first_subsystem ''test_disable''
                                    (update_bisect_status curr_backend first_subsystem st1)
                        in
                        if cli_interface then Some (Inl (SystemExit 0), st2)
                        else do_bisect_loop rounds fn cli_interface curr_backend
                               first_subsystem st2))))))"

text \<open>
  The part of \<open>do_bisect\<close> after the set-up of the in-process mode: the cursor is read,
  a missing backend starts the session, and the loop runs.
\<close>

definition do_bisect_session ::
  "nat \<Rightarrow> 'w predicate \<Rightarrow> bool \<Rightarrow> 'w state
     \<Rightarrow> ((error + (string list \<times> int)) \<times> 'w state) option" where
  "do_bisect_session rounds fn cli_interface st =
     (case get_backend st of
        Inl e \<Rightarrow> Some (Inl e, st)
      | Inr curr_backend \<Rightarrow>
         (case get_subsystem st of
            Inl e \<Rightarrow> Some (Inl e, st)
          | Inr curr_subsystem \<Rightarrow>
             (if curr_backend = [] then
                (case initialize_system st of
                   (Inl e, st1) \<Rightarrow> Some (Inl e, st1)
                 | (Inr _, st1) \<Rightarrow>
                    (case get_backend st1 of
                       Inl e \<Rightarrow> Some (Inl e, st1)
                     | Inr curr_backend' \<Rightarrow>
                        (case get_subsystem st1 of
                           Inl e \<Rightarrow> Some (Inl e, st1)
                         | Inr curr_subsystem' \<Rightarrow>
                            do_bisect_loop rounds fn cli_interface
                              curr_backend' curr_subsystem' st1)))
              else do_bisect_loop rounds fn cli_interface curr_backend curr_subsystem st)))"

text \<open>
  \<open>do_bisect\<close>. Without \<open>cli_interface\<close> the persisted state is deleted first and
  bisection is enabled; the object \<open>cleanup\<close> restores the flag and deletes the
  persisted state again when the call returns. (When the call raises, the traceback
  keeps the frame, and with it \<open>cleanup\<close>, alive until the caller lets go of the
  exception: the model leaves the state as it is at the raise.)
\<close>

definition do_bisect ::
  "nat \<Rightarrow> 'w predicate \<Rightarrow> bool \<Rightarrow> 'w state
     \<Rightarrow> ((error + (string list \<times> int)) \<times> 'w state) option" where
  "do_bisect rounds fn cli_interface st =
     (if \<not> cli_interface then
        (let bisection_enabled_orig = bisection_enabled st;
             st1 = (delete_bisect_status st)\<lparr>bisection_enabled := True\<rparr>
         in
          (case do_bisect_session rounds fn cli_interface st1 of
             None \<Rightarrow> None
           | Some (Inl e, st2) \<Rightarrow> Some (Inl e, st2)
           | Some (Inr found, st2) \<Rightarrow>
               Some (Inr found,
                     delete_bisect_status (st2\<lparr>bisection_enabled := bisection_enabled_orig\<rparr>))))
      else do_bisect_session rounds fn cli_interface st)"

section \<open>The command line and the module's initialisation\<close>

text \<open>\<open>test_function\<close> of \<open>command_line_usage\<close>: a constant, and no effect.\<close>

definition test_function :: "string \<Rightarrow> 'w predicate" where
  "test_function command st = (Inr (command = ''good''), st)"

text \<open>
  \<open>command_line_usage\<close> on \<open>sys.argv\<close>. A call that comes back returns \<open>None\<close>, here
  \<open>Inr ()\<close>.
\<close>

definition command_line_usage ::
  "nat \<Rightarrow> string list \<Rightarrow> 'w state \<Rightarrow> ((error + unit) \<times> 'w state) option" where
  "command_line_usage rounds argv st =
     (if length argv < 2 then Some (Inl (SystemExit 1), st)
      else
       (let command = argv ! 1 in
        if command = ''end'' then Some (Inl (SystemExit 0), delete_bisect_status st)
        else if command = ''start'' then
          (case initialize_system (delete_bisect_status st) of
             (Inl e, st1) \<Rightarrow> Some (Inl e, st1)
           | (Inr _, st1) \<Rightarrow> Some (Inl (SystemExit 0), st1))
        else if command \<notin> set [''good'', ''bad''] then Some (Inl (SystemExit 1), st)
        else
          (case get_backend st of
             Inl e \<Rightarrow> Some (Inl e, st)
           | Inr backend \<Rightarrow>
              (if backend = [] then
                 Some (Inl (ValueError ''Must call start prior to good or bad''), st)
               else
                 (case do_bisect rounds (test_function command) True st of
                    None \<Rightarrow> None
                  | Some (Inl e, st1) \<Rightarrow> Some (Inl e, st1)
                  | Some (Inr _, st1) \<Rightarrow> Some (Inr (), st1))))))"

text \<open>
  The exit status of the process that runs \<open>command_line_usage\<close> as its main program:
  0 when the call comes back, the argument of \<open>sys.exit\<close>, and 1 for any other
  exception, which nothing catches.
\<close>

definition exit_status :: "error + unit \<Rightarrow> int" where
  "exit_status r =
     (case r of
        Inr _ \<Rightarrow> 0
      | Inl (SystemExit code) \<Rightarrow> code
      | Inl _ \<Rightarrow> 1)"

text \<open>
  \<open>get_is_bisection_enabled\<close>: \<open>x is not None\<close> on a value \<open>x\<close> of type \<open>str\<close> is the
  test \<open>Some x \<noteq> None\<close> in \<open>Optional[str]\<close>; \<open>or\<close> evaluates its right operand only
  when the left one is false.
\<close>

definition get_is_bisection_enabled :: "'w state \<Rightarrow> error + bool" where
  "get_is_bisection_enabled st =
     (case get_subsystem st of
        Inl e \<Rightarrow> Inl e
      | Inr subsystem \<Rightarrow>
         (if Some subsystem \<noteq> None then Inr True
          else
           (case get_backend st of
              Inl e \<Rightarrow> Inl e
            | Inr backend \<Rightarrow> Inr (Some backend \<noteq> None))))"

text \<open>The assignment at the end of the module, run when the module is imported.\<close>

definition module_init :: "'w state \<Rightarrow> error + 'w state" where
  "module_init st =
     (case get_is_bisection_enabled st of
        Inl e \<Rightarrow> Inl e
      | Inr enabled \<Rightarrow> Inr (st\<lparr>bisection_enabled := enabled\<rparr>))"

section \<open>Concrete states for the examples\<close>

text \<open>
  A process with an empty environment and an empty cache directory, just after the
  module was imported; the session that \<open>start\<close> leaves in it; and sessions with the
  cursor on the subsystem \<open>lowerings\<close> of the backend \<open>inductor\<close>.
\<close>

definition fresh_process :: "nat state" where
  "fresh_process =
     \<lparr>environ = Map.empty, cache_root = ''/tmp/torchinductor'', files = Map.empty,
      subsystem_call_counter = Map.empty, call_counter_debug_info = Map.empty,
      bisection_enabled = True, world = 0\<rparr>"

definition started :: "nat state" where
  "started = update_bisect_status ''eager'' [] fresh_process"

definition session_in :: "string \<Rightarrow> nat state" where
  "session_in run_state =
     update_run_state ''inductor'' ''lowerings'' run_state
       (update_bisect_status ''inductor'' ''lowerings'' fresh_process)"

definition bisecting :: "int \<Rightarrow> int \<Rightarrow> nat state" where
  "bisecting low high = update_bisect_range ''inductor'' ''lowerings'' low high (session_in ''bisect'')"

section \<open>Workloads\<close>

text \<open>
  The predicate of a search runs a workload. A workload whose guarded call-site for
  \<open>(backend, subsystem)\<close> fires \<open>n\<close> times in one execution calls the guard hook \<open>n\<close>
  times, without a diagnostic producer; what it reports is a function \<open>verdict\<close> of the
  decisions the hook gave, in the order of the calls.
\<close>

fun call_sites :: "nat \<Rightarrow> string \<Rightarrow> string \<Rightarrow> 'w state \<Rightarrow> (error + bool list) \<times> 'w state" where
  "call_sites 0 backend subsystem st = (Inr [], st)"
| "call_sites (Suc n) backend subsystem st =
     (case disable_subsystem backend subsystem None st of
        (Inl e, st1) \<Rightarrow> (Inl e, st1)
      | (Inr suppress, st1) \<Rightarrow>
         (case call_sites n backend subsystem st1 of
            (Inl e, st2) \<Rightarrow> (Inl e, st2)
          | (Inr decisions, st2) \<Rightarrow> (Inr (suppress # decisions), st2)))"

definition workload :: "nat \<Rightarrow> string \<Rightarrow> string \<Rightarrow> (bool list \<Rightarrow> bool) \<Rightarrow> 'w predicate" where
  "workload n backend subsystem verdict st =
     (case call_sites n backend subsystem st of
        (Inl e, st1) \<Rightarrow> (Inl e, st1)
      | (Inr decisions, st1) \<Rightarrow> (Inr (verdict decisions), st1))"

text \<open>
  The guard hook gets as far as the run state: bisection is enabled, the cursor is on
  \<open>(backend, subsystem)\<close>, and \<open>TORCH_BISECT_MAX\<close> is not set (or empty).
\<close>

definition guard_active :: "'w state \<Rightarrow> string \<Rightarrow> string \<Rightarrow> bool" where
  "guard_active st backend subsystem =
     (bisection_enabled st \<and> get_backend st = Inr backend \<and> get_subsystem st = Inr subsystem
      \<and> truthy (get_env_val st ''TORCH_BISECT_MAX'') = None)"

text \<open>
  A probe in the words of the specification's convergence property: its result is a function
  \<open>answer\<close> of the suppression midpoint, the midpoint of the persisted Range above
  which the guard hook suppresses. It counts its executions in \<open>world\<close> and changes
  nothing else.
\<close>

definition midpoint_probe :: "string \<Rightarrow> string \<Rightarrow> (int \<Rightarrow> bool) \<Rightarrow> nat predicate" where
  "midpoint_probe backend subsystem answer st =
     (case get_bisect_range st backend subsystem of
        Inl e \<Rightarrow> (Inl e, st)
      | Inr (low, high) \<Rightarrow>
          (Inr (answer ((low + high) div 2)), st\<lparr>world := Suc (world st)\<rparr>))"

section \<open>One step of the command line\<close>

text \<open>
  The state that one step under \<open>cli_interface\<close> leaves, put together from the
  module's own functions. It is a device of the proofs: the lemmas on \<open>do_bisect\<close>
  compute it, and what it persists is then read back through the readers.
\<close>

definition state_after_step :: "string \<Rightarrow> string \<Rightarrow> string \<Rightarrow> 'w state \<Rightarrow> 'w state" where
  "state_after_step command backend subsystem st =
     (let st0 = reset_counters st in
      if subsystem = [] then
        (if command = ''good'' then snd (advance_backend backend st0)
         else (case map_of BACKENDS backend of
                 Some (first_subsystem # _) \<Rightarrow>
                   update_run_state backend first_subsystem ''test_disable''
                     (update_bisect_status backend first_subsystem st0)
               | _ \<Rightarrow> st0))
      else
        (let run_state = get_run_state st backend subsystem in
         if run_state = ''test_disable'' then
           (if command = ''good''
            then update_run_state backend subsystem ''find_max_bounds'' st0
            else snd (advance_subsystem backend subsystem st0))
         else if run_state = ''find_max_bounds'' then
           update_run_state backend subsystem ''bisect'' st0
         else
           (case get_bisect_range st backend subsystem of
              Inl _ \<Rightarrow> st0
            | Inr (low, high) \<Rightarrow>
                if command = ''good''
                then update_bisect_range backend subsystem ((low + high) div 2 + 1) high st0
                else update_bisect_range backend subsystem low ((low + high) div 2) st0)))"

text \<open>
  The words of the specification. The Global Cursor as the store holds it is what
  the status file says, which is what \<open>get_backend\<close> and \<open>get_subsystem\<close> read when
  no override is set. Backends and subsystems are walked in the order of the
  configuration: the next one is the element after the first occurrence.
\<close>

definition persisted_cursor :: "'w state \<Rightarrow> (error + string) \<times> (error + string)" where
  "persisted_cursor st =
     (let lines = read_lines_from_file st (bisect_status_path st)
      in (first_field ''backend='' lines, first_field ''subsystem='' lines))"

definition next_in_order :: "'a list \<Rightarrow> 'a \<Rightarrow> 'a option" where
  "next_in_order xs x =
     (case dropWhile (\<lambda>y. y \<noteq> x) xs of
        _ # y # _ \<Rightarrow> Some y
      | _ \<Rightarrow> None)"

definition subsystems_of :: "string \<Rightarrow> string list" where
  "subsystems_of backend =
     (case map_of BACKENDS backend of Some subsystems \<Rightarrow> subsystems | None \<Rightarrow> [])"

text \<open>
  The transition that one probe step persists, as the specification describes the
  traversal and the state machine, stated on what can be read from the store before
  (\<open>st\<close>) and after (\<open>st'\<close>); \<open>good\<close> is the probe result true and \<open>bad\<close> is false.
  At the level of a backend, true moves the cursor to the next backend, or changes
  nothing after the last one, and false selects the first subsystem with run state
  \<open>test_disable\<close>, or changes nothing when the backend has none. In \<open>test_disable\<close>,
  true leads to \<open>find_max_bounds\<close> and false moves the cursor to the next subsystem,
  with run state \<open>test_disable\<close>, or changes nothing after the last one.
  \<open>find_max_bounds\<close> leads to \<open>bisect\<close> and keeps the Range. In \<open>bisect\<close>, true narrows
  the Range to \<open>(mid + 1, high)\<close> and false to \<open>(low, mid)\<close>.
\<close>

definition transition_persisted ::
  "string \<Rightarrow> string \<Rightarrow> string \<Rightarrow> 'w state \<Rightarrow> 'w state \<Rightarrow> bool" where
  "transition_persisted command backend subsystem st st' =
     (if subsystem = [] then
        (if command = ''good'' then
           (case next_in_order (map fst BACKENDS) backend of
              Some next_backend \<Rightarrow> persisted_cursor st' = (Inr next_backend, Inr [])
            | None \<Rightarrow> persisted_cursor st' = persisted_cursor st)
         else
           (case subsystems_of backend of
              first_subsystem # _ \<Rightarrow>
                persisted_cursor st' = (Inr backend, Inr first_subsystem)
                \<and> get_run_state st' backend first_subsystem = ''test_disable''
            | [] \<Rightarrow> persisted_cursor st' = persisted_cursor st))
      else
        (let run_state = get_run_state st backend subsystem in
         if run_state = ''test_disable'' then
           (if command = ''good'' then
              persisted_cursor st' = persisted_cursor st
              \<and> get_run_state st' backend subsystem = ''find_max_bounds''
            else
              (case next_in_order (subsystems_of backend) subsystem of
                 Some next_subsystem \<Rightarrow>
                   persisted_cursor st' = (Inr backend, Inr next_subsystem)
                   \<and> get_run_state st' backend next_subsystem = ''test_disable''
               | None \<Rightarrow>
                   persisted_cursor st' = persisted_cursor st
                   \<and> get_run_state st' backend subsystem = ''test_disable''))
         else if run_state = ''find_max_bounds'' then
           persisted_cursor st' = persisted_cursor st
           \<and> get_run_state st' backend subsystem = ''bisect''
           \<and> get_bisect_range st' backend subsystem = get_bisect_range st backend subsystem
         else
           persisted_cursor st' = persisted_cursor st
           \<and> get_run_state st' backend subsystem = run_state
           \<and> (case get_bisect_range st backend subsystem of
                 Inl _ \<Rightarrow> False
               | Inr (low, high) \<Rightarrow>
                   get_bisect_range st' backend subsystem =
                     Inr (if command = ''good'' then ((low + high) div 2 + 1, high)
                          else (low, (low + high) div 2)))))"

text \<open>
  The states in which a step meets none of the fatal errors of the state machine: the
  cursor names a backend of the configuration and, when it names a subsystem, one of
  that backend; the run state of the subsystem is one of the three; it is not \<open>good\<close>
  that is reported in \<open>find_max_bounds\<close>; and the Range can be read where the step
  reads it.
\<close>

definition range_readable :: "'w state \<Rightarrow> string \<Rightarrow> string \<Rightarrow> bool" where
  "range_readable st backend subsystem =
     (case get_bisect_range st backend subsystem of Inl _ \<Rightarrow> False | Inr _ \<Rightarrow> True)"

definition no_fatal_error :: "string \<Rightarrow> string \<Rightarrow> string \<Rightarrow> 'w state \<Rightarrow> bool" where
  "no_fatal_error command backend subsystem st =
     (case map_of BACKENDS backend of
        None \<Rightarrow> False
      | Some current_subsystems \<Rightarrow>
          subsystem = []
          \<or> (subsystem \<in> set current_subsystems
              \<and> (let run_state = get_run_state st backend subsystem in
                  run_state = ''test_disable''
                  \<or> (run_state = ''find_max_bounds'' \<and> command = ''bad''
                      \<and> range_readable st backend subsystem)
                  \<or> (run_state = ''bisect'' \<and> range_readable st backend subsystem))))"

section \<open>Facts about the string and file functions\<close>

lemma digit_value_digit_char: "d < 10 \<Longrightarrow> digit_value (digit_char d) = Some d"
  by (auto simp: digit_value_def digit_char_def numeral_eq_Suc less_Suc_eq)

lemma digit_char_cases:
  "d < 10 \<Longrightarrow> digit_char d \<in> set ''0123456789''"
  by (simp add: digit_char_def numeral_eq_Suc less_Suc_eq, auto)

lemma digits_value_snoc:
  "digits_value acc (cs @ [c]) =
     (case digits_value acc cs of
        None \<Rightarrow> None
      | Some v \<Rightarrow> (case digit_value c of None \<Rightarrow> None | Some d \<Rightarrow> Some (10 * v + d)))"
  by (induction cs arbitrary: acc) (auto split: option.splits)

lemma digits_value_str_nat: "digits_value 0 (str_nat n) = Some n"
proof (induction n rule: str_nat.induct)
  case (1 n)
  show ?case
  proof (cases "n < 10")
    case True
    then show ?thesis
      by (subst str_nat.simps) (simp add: digit_value_digit_char)
  next
    case False
    with 1 have "digits_value 0 (str_nat (n div 10)) = Some (n div 10)" by simp
    with False show ?thesis
      by (subst str_nat.simps) (simp add: digits_value_snoc digit_value_digit_char)
  qed
qed

lemma set_str_nat: "set (str_nat n) \<subseteq> set ''0123456789''"
proof (induction n rule: str_nat.induct)
  case (1 n)
  show ?case
  proof (cases "n < 10")
    case True
    then show ?thesis
      using digit_char_cases [of n] by (subst str_nat.simps) simp
  next
    case False
    with 1 have "set (str_nat (n div 10)) \<subseteq> set ''0123456789''" by simp
    moreover have "digit_char (n mod 10) \<in> set ''0123456789''"
      by (rule digit_char_cases) simp
    ultimately show ?thesis using False
      by (subst str_nat.simps) simp
  qed
qed

lemma str_nat_nonempty: "str_nat n \<noteq> []"
  by (subst str_nat.simps) simp

lemma dropWhile_none: "\<forall>c\<in>set s. \<not> P c \<Longrightarrow> dropWhile P s = s"
  by (cases s) auto

lemma strip_no_space: "\<forall>c\<in>set s. \<not> isspace c \<Longrightarrow> strip s = s"
  by (simp add: strip_def dropWhile_none)

lemma strip_line: "\<forall>c\<in>set s. \<not> isspace c \<Longrightarrow> strip (s @ [CHR 0x0A]) = s"
proof -
  assume a: "\<forall>c\<in>set s. \<not> isspace c"
  have sp: "isspace (CHR 0x0A)" by (simp add: isspace_def)
  show ?thesis
  proof (cases s)
    case Nil
    then show ?thesis using sp by (simp add: strip_def)
  next
    case (Cons c cs)
    then have "dropWhile isspace (s @ [CHR 0x0A]) = s @ [CHR 0x0A]"
      using a by simp
    then show ?thesis using a sp by (simp add: strip_def dropWhile_none)
  qed
qed

lemma split_no_sep: "sep \<notin> set v \<Longrightarrow> split sep v = [v]"
  by (induction v) auto

lemma underscores_ok_none: "CHR ''_'' \<notin> set s \<Longrightarrow> underscores_ok s"
  by (induction s rule: underscores_ok.induct) auto

lemma digit_chars:
  assumes "c \<in> set ''0123456789''"
  shows "\<not> isspace c" and "c \<noteq> CHR ''-''" and "c \<noteq> CHR ''+''" and "c \<noteq> CHR ''_''"
    and "c \<noteq> CHR ''=''" and "c \<noteq> CHR 0x0A" and "c \<noteq> CHR 0x0D"
  using assms by (auto simp: isspace_def)

lemma str_nat_chars:
  assumes "c \<in> set (str_nat n)"
  shows "\<not> isspace c" and "c \<noteq> CHR ''-''" and "c \<noteq> CHR ''+''" and "c \<noteq> CHR ''_''"
    and "c \<noteq> CHR ''=''" and "c \<noteq> CHR 0x0A" and "c \<noteq> CHR 0x0D"
proof -
  from assms have "c \<in> set ''0123456789''" using set_str_nat [of n] by blast
  then show "\<not> isspace c" and "c \<noteq> CHR ''-''" and "c \<noteq> CHR ''+''" and "c \<noteq> CHR ''_''"
    and "c \<noteq> CHR ''=''" and "c \<noteq> CHR 0x0A" and "c \<noteq> CHR 0x0D"
    by (rule digit_chars)+
qed

lemma str_nat_no_space: "\<forall>c\<in>set (str_nat n). \<not> isspace c"
  using str_nat_chars(1) by blast

lemma int_unsigned_str_nat: "int_unsigned (str_nat n) = Inr n"
proof -
  have u: "CHR ''_'' \<notin> set (str_nat n)"
    using str_nat_chars(4) by blast
  then have "filter (\<lambda>c. c \<noteq> CHR ''_'') (str_nat n) = str_nat n"
    by (induction "str_nat n") (auto simp: filter_id_conv)
  with u show ?thesis
    by (simp add: int_unsigned_def underscores_ok_none str_nat_nonempty digits_value_str_nat)
qed

lemma str_nat_hd: "\<exists>c cs. str_nat n = c # cs \<and> c \<noteq> CHR ''-'' \<and> c \<noteq> CHR ''+''"
proof (cases "str_nat n")
  case Nil
  then show ?thesis using str_nat_nonempty by blast
next
  case (Cons c cs)
  then have "c \<in> set (str_nat n)" by simp
  then have "c \<noteq> CHR ''-''" "c \<noteq> CHR ''+''" by (rule str_nat_chars)+
  then show ?thesis using Cons by blast
qed

lemma int_strip_no_space: "\<forall>c\<in>set s. \<not> isspace c \<Longrightarrow> int_strip s = s"
proof -
  assume a: "\<forall>c\<in>set s. \<not> isspace c"
  have "int_isspace c \<Longrightarrow> isspace c" for c
    by (auto simp: int_isspace_def isspace_def)
  with a have "\<forall>c\<in>set s. \<not> int_isspace c" by blast
  then show ?thesis by (simp add: int_strip_def dropWhile_none)
qed

lemma py_int_str_nat: "py_int (str_nat n) = Inr (int n)"
proof -
  obtain c cs where c: "str_nat n = c # cs" "c \<noteq> CHR ''-''" "c \<noteq> CHR ''+''"
    using str_nat_hd by blast
  have "int_strip (str_nat n) = c # cs"
    using int_strip_no_space [OF str_nat_no_space, of n] c by simp
  moreover have "int_unsigned (c # cs) = Inr n"
    using int_unsigned_str_nat [of n] c by simp
  ultimately show ?thesis using c by (simp add: py_int_def)
qed

lemma py_int_str_int: "py_int (str_int n) = Inr n"
proof (cases "n < 0")
  case True
  have "\<not> isspace CHR ''-''" by (simp add: isspace_def)
  then have "\<forall>c\<in>set (CHR ''-'' # str_nat (nat (- n))). \<not> isspace c"
    using str_nat_no_space [of "nat (- n)"] by simp
  then have "int_strip (CHR ''-'' # str_nat (nat (- n))) = CHR ''-'' # str_nat (nat (- n))"
    by (rule int_strip_no_space)
  with True show ?thesis
    by (simp add: py_int_def str_int_def int_unsigned_str_nat)
next
  case False
  then show ?thesis by (simp add: str_int_def py_int_str_nat)
qed

lemma str_int_chars:
  assumes "c \<in> set (str_int n)"
  shows "\<not> isspace c" and "c \<noteq> CHR ''=''" and "c \<noteq> CHR 0x0A" and "c \<noteq> CHR 0x0D"
proof -
  from assms consider "c = CHR ''-''" | m where "c \<in> set (str_nat m)"
    by (auto simp: str_int_def split: if_splits)
  then have "\<not> isspace c \<and> c \<noteq> CHR ''='' \<and> c \<noteq> CHR 0x0A \<and> c \<noteq> CHR 0x0D"
  proof cases
    case 1
    then show ?thesis by (simp add: isspace_def)
  next
    case 2
    then show ?thesis
      using str_nat_chars(1) [OF 2] str_nat_chars(5) [OF 2] str_nat_chars(6) [OF 2]
        str_nat_chars(7) [OF 2] by simp
  qed
  then show "\<not> isspace c" and "c \<noteq> CHR ''=''" and "c \<noteq> CHR 0x0A" and "c \<noteq> CHR 0x0D"
    by simp_all
qed

lemma universal_newlines_id: "CHR 0x0D \<notin> set s \<Longrightarrow> universal_newlines s = s"
  by (induction s rule: universal_newlines.induct) auto

lemma keepends_line:
  "CHR 0x0A \<notin> set x \<Longrightarrow> keepends (x @ CHR 0x0A # rest) = (x @ [CHR 0x0A]) # keepends rest"
  by (induction x) auto

lemma keepends_Nil_iff: "keepends x = [] \<longleftrightarrow> x = []"
  by (cases x) (auto split: list.splits)

lemma keepends_no_eol: "CHR 0x0A \<notin> set x \<Longrightarrow> x \<noteq> [] \<Longrightarrow> keepends x = [x]"
proof (induction x)
  case Nil
  then show ?case by simp
next
  case (Cons c cs)
  show ?case
  proof (cases cs)
    case Nil
    with Cons.prems show ?thesis by simp
  next
    case (Cons d ds)
    with Cons.IH Cons.prems have "keepends cs = [cs]" by simp
    moreover from Cons.prems have "c \<noteq> CHR 0x0A" by auto
    ultimately show ?thesis by simp
  qed
qed

lemma split_nonempty: "split sep s \<noteq> []"
  by (induction s) (auto split: list.splits)

lemma strip_keeps_prefix:
  assumes "a \<noteq> []" and "\<not> isspace (hd a)" and "\<not> isspace (last a)"
  shows "strip (a @ b) = a @ rev (dropWhile isspace (rev b))"
proof -
  from assms have d: "dropWhile isspace (a @ b) = a @ b"
    by (cases a) auto
  from assms have r: "dropWhile isspace (rev a) = rev a"
    by (cases "rev a") (auto simp: last_rev hd_rev)
  have "dropWhile isspace (rev b @ rev a) = dropWhile isspace (rev b) @ rev a"
    using r by (simp add: dropWhile_append)
  then show ?thesis using d by (simp add: strip_def)
qed

lemma startswith_append: "startswith s p \<longleftrightarrow> (\<exists>r. s = p @ r)"
  unfolding startswith_def
  by (metis append_eq_conv_conj append_take_drop_id)

lemma field_value_backend:
  assumes "startswith line ''backend=''"
  shows "\<exists>v. field_value line = Inr v"
proof -
  from assms obtain r where l: "line = ''backend='' @ r"
    using startswith_append by blast
  have "strip (''backend='' @ r) = ''backend='' @ rev (dropWhile isspace (rev r))"
    by (rule strip_keeps_prefix) (simp_all add: isspace_def)
  then show ?thesis
    using l split_nonempty [of "CHR ''=''" "rev (dropWhile isspace (rev r))"]
    by (simp add: field_value_def item_def split: list.splits)
qed

lemma field_value_subsystem:
  assumes "startswith line ''subsystem=''"
  shows "\<exists>v. field_value line = Inr v"
proof -
  from assms obtain r where l: "line = ''subsystem='' @ r"
    using startswith_append by blast
  have "strip (''subsystem='' @ r) = ''subsystem='' @ rev (dropWhile isspace (rev r))"
    by (rule strip_keeps_prefix) (simp_all add: isspace_def)
  then show ?thesis
    using l split_nonempty [of "CHR ''=''" "rev (dropWhile isspace (rev r))"]
    by (simp add: field_value_def item_def split: list.splits)
qed

lemma first_field_backend: "\<exists>v. first_field ''backend='' lines = Inr v"
  by (induction lines) (simp_all add: field_value_backend)

lemma first_field_subsystem: "\<exists>v. first_field ''subsystem='' lines = Inr v"
  by (induction lines) (simp_all add: field_value_subsystem)

lemma get_backend_returns: "\<exists>v. get_backend st = Inr v"
  using first_field_backend by (simp add: get_backend_def split: option.splits)

lemma get_subsystem_returns: "\<exists>v. get_subsystem st = Inr v"
  using first_field_subsystem by (simp add: get_subsystem_def split: option.splits)

subsection \<open>Paths\<close>

lemma suffix_join2: "suffix b (join2 p b)"
  by (simp add: join2_def suffix_def)

lemma suffix_run_state_path: "suffix ''_run_state.txt'' (run_state_path st b s)"
proof -
  have "suffix (s @ ''_run_state.txt'') (run_state_path st b s)"
    by (simp add: run_state_path_def path_join_def suffix_join2)
  then show ?thesis by (rule suffix_appendD)
qed

lemma suffix_bisect_range_path: "suffix ''_bisect_range.txt'' (bisect_range_path st b s)"
proof -
  have "suffix (s @ ''_bisect_range.txt'') (bisect_range_path st b s)"
    by (simp add: bisect_range_path_def path_join_def suffix_join2)
  then show ?thesis by (rule suffix_appendD)
qed

lemma suffix_bisect_status_path: "suffix ''bisect_status.txt'' (bisect_status_path st)"
  by (simp add: bisect_status_path_def path_join_def suffix_join2)

lemma suffix_clash: "suffix a p \<Longrightarrow> suffix b p \<Longrightarrow> suffix a b \<or> suffix b a"
  by (rule suffix_same_cases)

lemma range_path_neq_run_state_path [simp]:
  "bisect_range_path st b s \<noteq> run_state_path st' b' s'"
  "run_state_path st' b' s' \<noteq> bisect_range_path st b s"
proof -
  have "\<not> (suffix ''_bisect_range.txt'' ''_run_state.txt'' \<or> suffix ''_run_state.txt'' ''_bisect_range.txt'')"
    by (simp add: suffix_to_prefix)
  then show "bisect_range_path st b s \<noteq> run_state_path st' b' s'"
    using suffix_clash [OF suffix_bisect_range_path [of st b s], of "''_run_state.txt''"]
      suffix_run_state_path [of st' b' s'] by auto
  then show "run_state_path st' b' s' \<noteq> bisect_range_path st b s" by simp
qed

lemma range_path_neq_status_path [simp]:
  "bisect_range_path st b s \<noteq> bisect_status_path st'"
  "bisect_status_path st' \<noteq> bisect_range_path st b s"
proof -
  have "\<not> (suffix ''_bisect_range.txt'' ''bisect_status.txt'' \<or> suffix ''bisect_status.txt'' ''_bisect_range.txt'')"
    by (simp add: suffix_to_prefix)
  then show "bisect_range_path st b s \<noteq> bisect_status_path st'"
    using suffix_clash [OF suffix_bisect_range_path [of st b s], of "''bisect_status.txt''"]
      suffix_bisect_status_path [of st'] by auto
  then show "bisect_status_path st' \<noteq> bisect_range_path st b s" by simp
qed

lemma run_state_path_neq_status_path [simp]:
  "run_state_path st b s \<noteq> bisect_status_path st'"
  "bisect_status_path st' \<noteq> run_state_path st b s"
proof -
  have "\<not> (suffix ''_run_state.txt'' ''bisect_status.txt'' \<or> suffix ''bisect_status.txt'' ''_run_state.txt'')"
    by (simp add: suffix_to_prefix)
  then show "run_state_path st b s \<noteq> bisect_status_path st'"
    using suffix_clash [OF suffix_run_state_path [of st b s], of "''bisect_status.txt''"]
      suffix_bisect_status_path [of st'] by auto
  then show "bisect_status_path st' \<noteq> run_state_path st b s" by simp
qed

subsection \<open>What the writers change and what the readers read\<close>

lemma write_lines_to_file_fields [simp]:
  "environ (write_lines_to_file p l st) = environ st"
  "cache_root (write_lines_to_file p l st) = cache_root st"
  "files (write_lines_to_file p l st) = (files st)(p \<mapsto> writelines l)"
  "subsystem_call_counter (write_lines_to_file p l st) = subsystem_call_counter st"
  "call_counter_debug_info (write_lines_to_file p l st) = call_counter_debug_info st"
  "bisection_enabled (write_lines_to_file p l st) = bisection_enabled st"
  "world (write_lines_to_file p l st) = world st"
  by (simp_all add: write_lines_to_file_def)

lemma reset_counters_fields [simp]:
  "environ (reset_counters st) = environ st"
  "cache_root (reset_counters st) = cache_root st"
  "files (reset_counters st) = files st"
  "subsystem_call_counter (reset_counters st) = Map.empty"
  "call_counter_debug_info (reset_counters st) = Map.empty"
  "bisection_enabled (reset_counters st) = bisection_enabled st"
  "world (reset_counters st) = world st"
  by (simp_all add: reset_counters_def)

lemma get_system_counter_fields [simp]:
  "environ (snd (get_system_counter n i st)) = environ st"
  "cache_root (snd (get_system_counter n i st)) = cache_root st"
  "files (snd (get_system_counter n i st)) = files st"
  "call_counter_debug_info (snd (get_system_counter n i st)) = call_counter_debug_info st"
  "bisection_enabled (snd (get_system_counter n i st)) = bisection_enabled st"
  "world (snd (get_system_counter n i st)) = world st"
  by (simp_all add: get_system_counter_def Let_def)

lemma set_debug_info_fields [simp]:
  "environ (set_debug_info k v st) = environ st"
  "cache_root (set_debug_info k v st) = cache_root st"
  "files (set_debug_info k v st) = files st"
  "subsystem_call_counter (set_debug_info k v st) = subsystem_call_counter st"
  "bisection_enabled (set_debug_info k v st) = bisection_enabled st"
  "world (set_debug_info k v st) = world st"
  by (simp_all add: set_debug_info_def)

text \<open>The paths depend on the cache directory only.\<close>

lemma paths_cong:
  assumes "cache_root st' = cache_root st"
  shows "get_dir st' = get_dir st"
    and "run_state_path st' b s = run_state_path st b s"
    and "bisect_range_path st' b s = bisect_range_path st b s"
    and "bisect_status_path st' = bisect_status_path st"
  using assms
  by (simp_all add: get_dir_def run_state_path_def bisect_range_path_def bisect_status_path_def)

text \<open>Each reader depends on the cache directory, on one file and, for the cursor, on the environment.\<close>

lemma get_run_state_cong:
  assumes "cache_root st' = cache_root st"
    and "files st' (run_state_path st b s) = files st (run_state_path st b s)"
  shows "get_run_state st' b s = get_run_state st b s"
  using assms paths_cong(2) [OF assms(1), of b s]
  by (simp add: get_run_state_def read_lines_from_file_def)

lemma get_bisect_range_cong:
  assumes "cache_root st' = cache_root st"
    and "files st' (bisect_range_path st b s) = files st (bisect_range_path st b s)"
  shows "get_bisect_range st' b s = get_bisect_range st b s"
  using assms paths_cong(3) [OF assms(1), of b s]
  by (simp add: get_bisect_range_def read_lines_from_file_def)

lemma get_backend_cong:
  assumes "cache_root st' = cache_root st" and "environ st' = environ st"
    and "files st' (bisect_status_path st) = files st (bisect_status_path st)"
  shows "get_backend st' = get_backend st"
  using assms paths_cong(4) [OF assms(1)]
  by (simp add: get_backend_def get_env_val_def read_lines_from_file_def split: option.splits)

lemma get_subsystem_cong:
  assumes "cache_root st' = cache_root st" and "environ st' = environ st"
    and "files st' (bisect_status_path st) = files st (bisect_status_path st)"
  shows "get_subsystem st' = get_subsystem st"
  using assms paths_cong(4) [OF assms(1)]
  by (simp add: get_subsystem_def get_env_val_def read_lines_from_file_def split: option.splits)

lemma update_run_state_fields [simp]:
  "environ (update_run_state b s r st) = environ st"
  "cache_root (update_run_state b s r st) = cache_root st"
  "files (update_run_state b s r st) = (files st)(run_state_path st b s \<mapsto> r)"
  "subsystem_call_counter (update_run_state b s r st) = subsystem_call_counter st"
  "call_counter_debug_info (update_run_state b s r st) = call_counter_debug_info st"
  "bisection_enabled (update_run_state b s r st) = bisection_enabled st"
  "world (update_run_state b s r st) = world st"
  by (simp_all add: update_run_state_def writelines_def)

lemma update_bisect_range_fields [simp]:
  "environ (update_bisect_range b s l h st) = environ st"
  "cache_root (update_bisect_range b s l h st) = cache_root st"
  "files (update_bisect_range b s l h st) =
     (files st)(bisect_range_path st b s \<mapsto>
        ''low='' @ str_int l @ [CHR 0x0A] @ ''high='' @ str_int h @ [CHR 0x0A])"
  "subsystem_call_counter (update_bisect_range b s l h st) = subsystem_call_counter st"
  "call_counter_debug_info (update_bisect_range b s l h st) = call_counter_debug_info st"
  "bisection_enabled (update_bisect_range b s l h st) = bisection_enabled st"
  "world (update_bisect_range b s l h st) = world st"
  by (simp_all add: update_bisect_range_def writelines_def)

lemma update_bisect_status_fields [simp]:
  "environ (update_bisect_status b s st) = environ st"
  "cache_root (update_bisect_status b s st) = cache_root st"
  "files (update_bisect_status b s st) =
     (files st)(bisect_status_path st \<mapsto>
        ''backend='' @ b @ [CHR 0x0A] @ ''subsystem='' @ s @ [CHR 0x0A])"
  "subsystem_call_counter (update_bisect_status b s st) = subsystem_call_counter st"
  "call_counter_debug_info (update_bisect_status b s st) = call_counter_debug_info st"
  "bisection_enabled (update_bisect_status b s st) = bisection_enabled st"
  "world (update_bisect_status b s st) = world st"
  by (simp_all add: update_bisect_status_def writelines_def)

text \<open>A range that was written is the range that is read.\<close>

lemma int_field_line:
  assumes "key = ''low='' \<or> key = ''high=''"
  shows "int_field (key @ str_int n @ [CHR 0x0A]) = Inr n"
proof -
  have k: "\<forall>c\<in>set key. \<not> isspace c"
    using assms by (auto simp: isspace_def)
  have "\<forall>c\<in>set (str_int n). \<not> isspace c"
    using str_int_chars(1) by blast
  with k have ns: "\<forall>c\<in>set (key @ str_int n). \<not> isspace c"
    by auto
  have ne: "CHR ''='' \<notin> set (str_int n)"
    using str_int_chars(2) [of _ n] by blast
  have "strip ((key @ str_int n) @ [CHR 0x0A]) = key @ str_int n"
    using ns by (rule strip_line)
  then have "field_value (key @ str_int n @ [CHR 0x0A]) = Inr (str_int n)"
    using assms split_no_sep [OF ne] by (auto simp: field_value_def item_def)
  then show ?thesis by (simp add: int_field_def py_int_str_int)
qed

lemma readlines_range:
  "readlines (''low='' @ str_int l @ [CHR 0x0A] @ ''high='' @ str_int h @ [CHR 0x0A]) =
     [''low='' @ str_int l @ [CHR 0x0A], ''high='' @ str_int h @ [CHR 0x0A]]"
proof -
  have cr: "CHR 0x0D \<notin> set (''low='' @ str_int l @ [CHR 0x0A] @ ''high='' @ str_int h @ [CHR 0x0A])"
    using str_int_chars(4) [of _ l] str_int_chars(4) [of _ h] by auto
  have l1: "CHR 0x0A \<notin> set (''low='' @ str_int l)"
    using str_int_chars(3) [of _ l] by auto
  have l2: "CHR 0x0A \<notin> set (''high='' @ str_int h)"
    using str_int_chars(3) [of _ h] by auto
  have "keepends ((''low='' @ str_int l) @ CHR 0x0A # ((''high='' @ str_int h) @ CHR 0x0A # [])) =
          ((''low='' @ str_int l) @ [CHR 0x0A]) # ((''high='' @ str_int h) @ [CHR 0x0A]) # keepends []"
    by (simp only: keepends_line [OF l1] keepends_line [OF l2])
  then show ?thesis
    using universal_newlines_id [OF cr] by (simp add: readlines_def)
qed

lemma scan_range_written:
  "scan_range [''high='' @ str_int h @ [CHR 0x0A], ''low='' @ str_int l @ [CHR 0x0A]] None None =
     Inr (Some l, Some h)"
proof -
  have "int_field (''high='' @ str_int h @ [CHR 0x0A]) = Inr h"
    and "int_field (''low='' @ str_int l @ [CHR 0x0A]) = Inr l"
    by (rule int_field_line, simp)+
  then show ?thesis by (simp add: startswith_def)
qed

lemma get_bisect_range_update [simp]:
  "get_bisect_range (update_bisect_range b s l h st) b s = Inr (l, h)"
proof -
  have p: "bisect_range_path (update_bisect_range b s l h st) b s = bisect_range_path st b s"
    by (rule paths_cong) simp
  show ?thesis
    using readlines_range [of l h] scan_range_written [of h l]
    by (simp add: get_bisect_range_def read_lines_from_file_def p)
qed

text \<open>A run state that was written is the run state that is read.\<close>

lemma get_run_state_update:
  assumes "r \<noteq> []" and "\<forall>c\<in>set r. \<not> isspace c"
  shows "get_run_state (update_run_state b s r st) b s = r"
proof -
  have p: "run_state_path (update_run_state b s r st) b s = run_state_path st b s"
    by (rule paths_cong) simp
  have "isspace (CHR 0x0A)" and "isspace (CHR 0x0D)" by (simp_all add: isspace_def)
  with assms have "CHR 0x0A \<notin> set r" and "CHR 0x0D \<notin> set r" by auto
  then have "readlines r = [r]"
    using assms(1) by (simp add: readlines_def universal_newlines_id keepends_no_eol)
  then show ?thesis
    using strip_no_space [OF assms(2)]
    by (simp add: get_run_state_def read_lines_from_file_def p)
qed

lemma get_run_state_update_consts [simp]:
  "get_run_state (update_run_state b s ''test_disable'' st) b s = ''test_disable''"
  "get_run_state (update_run_state b s ''find_max_bounds'' st) b s = ''find_max_bounds''"
  "get_run_state (update_run_state b s ''bisect'' st) b s = ''bisect''"
  by (rule get_run_state_update; simp add: isspace_def)+

text \<open>What a writer leaves alone.\<close>

lemma get_run_state_frame [simp]:
  "get_run_state (update_bisect_range b' s' l h st) b s = get_run_state st b s"
  "get_run_state (reset_counters st) b s = get_run_state st b s"
  "get_run_state (snd (get_system_counter n i st)) b s = get_run_state st b s"
  "get_run_state (set_debug_info k v st) b s = get_run_state st b s"
  by (rule get_run_state_cong; simp)+

lemma get_bisect_range_frame [simp]:
  "get_bisect_range (update_run_state b' s' r st) b s = get_bisect_range st b s"
  "get_bisect_range (reset_counters st) b s = get_bisect_range st b s"
  "get_bisect_range (snd (get_system_counter n i st)) b s = get_bisect_range st b s"
  "get_bisect_range (set_debug_info k v st) b s = get_bisect_range st b s"
  by (rule get_bisect_range_cong; simp)+

lemma get_backend_frame [simp]:
  "get_backend (update_run_state b' s' r st) = get_backend st"
  "get_backend (update_bisect_range b' s' l h st) = get_backend st"
  "get_backend (reset_counters st) = get_backend st"
  "get_backend (snd (get_system_counter n i st)) = get_backend st"
  "get_backend (set_debug_info k v st) = get_backend st"
  by (rule get_backend_cong; simp)+

lemma get_subsystem_frame [simp]:
  "get_subsystem (update_run_state b' s' r st) = get_subsystem st"
  "get_subsystem (update_bisect_range b' s' l h st) = get_subsystem st"
  "get_subsystem (reset_counters st) = get_subsystem st"
  "get_subsystem (snd (get_system_counter n i st)) = get_subsystem st"
  "get_subsystem (set_debug_info k v st) = get_subsystem st"
  by (rule get_subsystem_cong; simp)+

lemma get_env_val_frame [simp]:
  "get_env_val (update_run_state b' s' r st) = get_env_val st"
  "get_env_val (update_bisect_range b' s' l h st) = get_env_val st"
  "get_env_val (reset_counters st) = get_env_val st"
  "get_env_val (snd (get_system_counter n i st)) = get_env_val st"
  "get_env_val (set_debug_info k v st) = get_env_val st"
  by (simp_all add: get_env_val_def fun_eq_iff)

lemma get_system_counter_value:
  "fst (get_system_counter n i st) = (case subsystem_call_counter st n of None \<Rightarrow> 0 | Some c \<Rightarrow> c)"
  "subsystem_call_counter (snd (get_system_counter n True st)) =
     (subsystem_call_counter st)(n \<mapsto> fst (get_system_counter n False st) + 1)"
  "snd (get_system_counter n False st) = st"
  by (simp_all add: get_system_counter_def Let_def)

lemma reset_counters_idem [simp]: "reset_counters (reset_counters st) = reset_counters st"
  by (simp add: reset_counters_def)

subsection \<open>One round of the state machine\<close>

lemma perform_bisection_bisect_round:
  assumes "get_run_state st backend subsystem = ''bisect''"
    and "get_bisect_range st backend subsystem = Inr (low, high)"
    and "fn (reset_counters st) = (Inr issue_fixed, st')"
  shows "perform_bisection (Suc rounds) backend subsystem fn cli_interface st =
           (let low' = (if issue_fixed then (low + high) div 2 + 1 else low);
                high' = (if issue_fixed then high else (low + high) div 2);
                st'' = update_bisect_range backend subsystem low' high' st'
            in if low' = high' then Some (Inr True, st'')
               else if cli_interface then Some (Inl (SystemExit 0), st'')
               else perform_bisection rounds backend subsystem fn cli_interface st'')"
  using assms by (cases issue_fixed) (simp_all add: Let_def)

lemma do_bisect_loop_found:
  assumes "subsystem \<noteq> []"
    and "perform_bisection (Suc rounds) backend subsystem fn cli_interface (reset_counters st) =
           Some (Inr True, st'')"
    and "get_subsystem st'' = Inr found"
    and "get_bisect_range st'' backend found = Inr (low, high)"
  shows "do_bisect_loop (Suc rounds) fn cli_interface backend subsystem st =
           Some (Inr ([backend, found], low), st'')"
  using assms by (simp add: Let_def del: perform_bisection.simps)

subsection \<open>The guard hook during \<open>find_max_bounds\<close>\<close>

lemma guard_active_frame [simp]:
  "guard_active (update_run_state b' s' r st) b s = guard_active st b s"
  "guard_active (update_bisect_range b' s' l h st) b s = guard_active st b s"
  "guard_active (reset_counters st) b s = guard_active st b s"
  "guard_active (snd (get_system_counter n i st)) b s = guard_active st b s"
  "guard_active (set_debug_info k v st) b s = guard_active st b s"
  by (simp_all add: guard_active_def)

lemma disable_subsystem_find_max_bounds:
  assumes "guard_active st backend subsystem"
    and "get_run_state st backend subsystem = ''find_max_bounds''"
  shows "disable_subsystem backend subsystem debug_info st =
           (Inr False,
            update_bisect_range backend subsystem 0 (fst (get_system_counter subsystem False st))
              (snd (get_system_counter subsystem True st)))"
  using assms
  by (simp add: disable_subsystem_def guard_active_def Let_def get_system_counter_def
      split: prod.splits)

lemma counter_after_increment [simp]:
  "fst (get_system_counter n False (snd (get_system_counter n True st))) =
     fst (get_system_counter n False st) + 1"
  "fst (get_system_counter n False (update_bisect_range b s l h st)) =
     fst (get_system_counter n False st)"
  "fst (get_system_counter n False (update_run_state b s r st)) =
     fst (get_system_counter n False st)"
  "fst (get_system_counter n False (reset_counters st)) = 0"
  by (simp_all add: get_system_counter_def Let_def)

lemma call_sites_find_max_bounds:
  assumes "guard_active st backend subsystem"
    and "get_run_state st backend subsystem = ''find_max_bounds''"
  shows "\<exists>st'. call_sites n backend subsystem st = (Inr (replicate n False), st')
           \<and> guard_active st' backend subsystem
           \<and> get_run_state st' backend subsystem = ''find_max_bounds''
           \<and> fst (get_system_counter subsystem False st') =
               fst (get_system_counter subsystem False st) + int n
           \<and> (0 < n \<longrightarrow> get_bisect_range st' backend subsystem =
                 Inr (0, fst (get_system_counter subsystem False st) + int n - 1))
           \<and> world st' = world st"
  using assms
proof (induction n arbitrary: st)
  case 0
  then show ?case by simp
next
  case (Suc n)
  let ?c = "fst (get_system_counter subsystem False st)"
  let ?st1 = "update_bisect_range backend subsystem 0 ?c (snd (get_system_counter subsystem True st))"
  have d: "disable_subsystem backend subsystem None st = (Inr False, ?st1)"
    using Suc.prems by (rule disable_subsystem_find_max_bounds)
  have a1: "guard_active ?st1 backend subsystem"
    and r1: "get_run_state ?st1 backend subsystem = ''find_max_bounds''"
    using Suc.prems by simp_all
  have c1: "fst (get_system_counter subsystem False ?st1) = ?c + 1" by simp
  have g1: "get_bisect_range ?st1 backend subsystem = Inr (0, ?c)" by simp
  have w1: "world ?st1 = world st" by simp
  from Suc.IH [OF a1 r1] obtain st' where
    s: "call_sites n backend subsystem ?st1 = (Inr (replicate n False), st')"
    and a: "guard_active st' backend subsystem"
    and r: "get_run_state st' backend subsystem = ''find_max_bounds''"
    and c: "fst (get_system_counter subsystem False st') =
              fst (get_system_counter subsystem False ?st1) + int n"
    and g: "0 < n \<longrightarrow> get_bisect_range st' backend subsystem =
              Inr (0, fst (get_system_counter subsystem False ?st1) + int n - 1)"
    and w: "world st' = world ?st1"
    by blast
  have g0: "n = 0 \<Longrightarrow> st' = ?st1"
    using s by simp
  have "call_sites (Suc n) backend subsystem st = (Inr (replicate (Suc n) False), st')"
    using d s by simp
  moreover have "fst (get_system_counter subsystem False st') = ?c + int (Suc n)"
    using c c1 by simp
  moreover have "get_bisect_range st' backend subsystem = Inr (0, ?c + int (Suc n) - 1)"
  proof (cases "n = 0")
    case True
    then show ?thesis using g0 g1 by simp
  next
    case False
    then show ?thesis using g c1 by simp
  qed
  moreover have "world st' = world st" using w w1 by simp
  ultimately show ?case using a r by blast
qed

subsection \<open>The bisect loop\<close>

lemma world_update_frame [simp]:
  "get_run_state (st\<lparr>world := w\<rparr>) b s = get_run_state st b s"
  "get_bisect_range (st\<lparr>world := w\<rparr>) b s = get_bisect_range st b s"
  "get_backend (st\<lparr>world := w\<rparr>) = get_backend st"
  "get_subsystem (st\<lparr>world := w\<rparr>) = get_subsystem st"
  by (rule get_run_state_cong get_bisect_range_cong get_backend_cong get_subsystem_cong; simp)+

lemma midpoint_probe_answer:
  assumes "get_bisect_range st backend subsystem = Inr (low, high)"
  shows "midpoint_probe backend subsystem answer (reset_counters st) =
           (Inr (answer ((low + high) div 2)), (reset_counters st)\<lparr>world := Suc (world st)\<rparr>)"
  using assms by (simp add: midpoint_probe_def)

lemma half_sizes:
  fixes low high :: int
  assumes "low < high"
  shows "low \<le> (low + high) div 2" and "(low + high) div 2 < high"
    and "2 * (high - (low + high) div 2) \<le> high - low + 1"
    and "high - low \<le> 2 * (high - (low + high) div 2)"
    and "2 * ((low + high) div 2 - low + 1) \<le> high - low + 2"
    and "high - low + 1 \<le> 2 * ((low + high) div 2 - low + 1)"
  using assms by presburger+

lemma two_power_le_3: "(2::int) ^ j \<le> 3 \<Longrightarrow> j \<le> 1"
proof (rule ccontr)
  assume a: "(2::int) ^ j \<le> 3" and "\<not> j \<le> 1"
  then have "2 \<le> j" by simp
  then have "(2::int) ^ 2 \<le> 2 ^ j" by (rule power_increasing) simp
  with a show False by simp
qed

lemma bisect_converges:
  fixes c :: int
  assumes "get_run_state st b s = ''bisect''"
    and "get_bisect_range st b s = Inr (low, high)"
    and "low \<le> c" and "c \<le> high"
    and "\<forall>m. low \<le> m \<and> m \<le> high \<longrightarrow> answer m = (m < c)"
  shows "\<exists>st' p. (\<forall>fuel\<ge>p. perform_bisection fuel b s (midpoint_probe b s answer) False st =
                               Some (Inr True, st'))
           \<and> get_bisect_range st' b s = Inr (c, c)
           \<and> world st' = world st + p
           \<and> 1 \<le> p
           \<and> (\<forall>k. high - low + 1 \<le> 2 ^ k \<longrightarrow> p \<le> max 1 k)
           \<and> (\<forall>j. 2 ^ j \<le> high - low + 1 \<longrightarrow> j \<le> p)"
  using assms
proof (induction "nat (high - low)" arbitrary: st low high rule: less_induct)
  case less
  let ?fn = "midpoint_probe b s answer"
  let ?mid = "(low + high) div 2"
  let ?r = "?mid < c"
  let ?low' = "if ?r then ?mid + 1 else low"
  let ?high' = "if ?r then high else ?mid"
  let ?st1 = "(reset_counters st)\<lparr>world := Suc (world st)\<rparr>"
  let ?st2 = "update_bisect_range b s ?low' ?high' ?st1"
  have le: "low \<le> high" using less.prems by simp
  then have "low \<le> ?mid" and "?mid \<le> high" by presburger+
  with less.prems(5) have "answer ?mid = ?r" by blast
  then have f: "?fn (reset_counters st) = (Inr ?r, ?st1)"
    using midpoint_probe_answer [OF less.prems(2), of answer] by simp
  note round = perform_bisection_bisect_round
                 [where fn = ?fn and cli_interface = False, OF less.prems(1,2) f]
  have step_done: "perform_bisection (Suc n) b s ?fn False st = Some (Inr True, ?st2)"
    if "?low' = ?high'" for n
    using round [of n] that by (simp only: Let_def if_True if_False simp_thms)
  have step_more: "perform_bisection (Suc n) b s ?fn False st =
                     perform_bisection n b s ?fn False ?st2"
    if "?low' \<noteq> ?high'" for n
    using round [of n] that by (simp only: Let_def if_True if_False simp_thms)
  have r2: "get_run_state ?st2 b s = ''bisect''"
    using less.prems(1) by simp
  have g2: "get_bisect_range ?st2 b s = Inr (?low', ?high')"
    by simp
  have w2: "world ?st2 = world st + 1"
    by simp
  show ?case
  proof (cases "?low' = ?high'")
    case True
    have c': "?low' = c \<and> ?high' = c"
      using True less.prems(3,4) by (auto split: if_splits; presburger)
    have small: "high - low + 1 \<le> 3"
      using True le by (auto split: if_splits; presburger)
    have "\<forall>fuel\<ge>1. perform_bisection fuel b s ?fn False st = Some (Inr True, ?st2)"
    proof (intro allI impI)
      fix fuel :: nat assume "1 \<le> fuel"
      then obtain n where "fuel = Suc n" by (cases fuel) auto
      then show "perform_bisection fuel b s ?fn False st = Some (Inr True, ?st2)"
        using step_done [OF True, of n] by (simp only:)
    qed
    moreover have "get_bisect_range ?st2 b s = Inr (c, c)"
      using g2 c' by (simp only:)
    moreover have "\<forall>j. 2 ^ j \<le> high - low + 1 \<longrightarrow> j \<le> (1::nat)"
      using small two_power_le_3 by (meson order_trans)
    moreover have "\<forall>k. high - low + 1 \<le> 2 ^ k \<longrightarrow> (1::nat) \<le> max 1 k"
      by simp
    ultimately show ?thesis
      using w2 by (intro exI [of _ ?st2] exI [of _ "1::nat"]) simp
  next
    case False
    have lt: "low < high"
    proof (rule ccontr)
      assume "\<not> low < high"
      with le have e: "low = high" by simp
      with less.prems(3,4) have "c = low" by simp
      with e have "?low' = ?high'" by simp
      with False show False by (simp only:)
    qed
    note h = half_sizes [OF lt]
    have m: "nat (?high' - ?low') < nat (high - low)"
      using h lt by (auto split: if_splits)
    have b1: "?low' \<le> c" and b2: "c \<le> ?high'"
      using less.prems(3,4) by (auto split: if_splits)
    have b3: "\<forall>m. ?low' \<le> m \<and> m \<le> ?high' \<longrightarrow> answer m = (m < c)"
      using less.prems(5) h by (auto split: if_splits)
    from less.hyps [OF m r2 g2 b1 b2 b3] obtain st' p where
      run: "\<forall>fuel\<ge>p. perform_bisection fuel b s ?fn False ?st2 = Some (Inr True, st')"
      and g: "get_bisect_range st' b s = Inr (c, c)"
      and w: "world st' = world ?st2 + p"
      and p1: "1 \<le> p"
      and up: "\<forall>k. ?high' - ?low' + 1 \<le> 2 ^ k \<longrightarrow> p \<le> max 1 k"
      and lo: "\<forall>j. 2 ^ j \<le> ?high' - ?low' + 1 \<longrightarrow> j \<le> p"
      by blast
    have "\<forall>fuel\<ge>Suc p. perform_bisection fuel b s ?fn False st = Some (Inr True, st')"
    proof (intro allI impI)
      fix fuel :: nat assume "Suc p \<le> fuel"
      then obtain n where n: "fuel = Suc n" "p \<le> n" by (cases fuel) auto
      from run n(2) have "perform_bisection n b s ?fn False ?st2 = Some (Inr True, st')"
        by blast
      then show "perform_bisection fuel b s ?fn False st = Some (Inr True, st')"
        using step_more [OF False, of n] n(1) by (simp only:)
    qed
    moreover have "world st' = world st + Suc p"
      using w w2 by simp
    moreover have "\<forall>k. high - low + 1 \<le> 2 ^ k \<longrightarrow> Suc p \<le> max 1 k"
    proof (intro allI impI)
      fix k :: nat assume a: "high - low + 1 \<le> 2 ^ k"
      have "k \<noteq> 0" using a lt by (cases k) auto
      then obtain k' where k: "k = Suc k'" by (cases k) auto
      have s: "?high' - ?low' + 1 \<le> 2 ^ k'"
        using a h k by (auto split: if_splits)
      have "k' \<noteq> 0"
      proof
        assume "k' = 0"
        with s have "?high' - ?low' + 1 \<le> 1" by simp
        moreover have "?low' \<le> ?high'" using b1 b2 by (rule order_trans)
        ultimately have "?low' = ?high'" by linarith
        with False show False by simp
      qed
      moreover from up s have "p \<le> max 1 k'" by blast
      ultimately show "Suc p \<le> max 1 k" using k by simp
    qed
    moreover have "\<forall>j. 2 ^ j \<le> high - low + 1 \<longrightarrow> j \<le> Suc p"
    proof (intro allI impI)
      fix j :: nat assume a: "2 ^ j \<le> high - low + 1"
      show "j \<le> Suc p"
      proof (cases j)
        case 0
        then show ?thesis by simp
      next
        case (Suc j')
        have "2 ^ j' \<le> ?high' - ?low' + 1"
          using a h Suc by (auto split: if_splits)
        with lo have "j' \<le> p" by blast
        with Suc show ?thesis by simp
      qed
    qed
    ultimately show ?thesis
      using g by (intro exI [of _ st'] exI [of _ "Suc p"]) simp
  qed
qed

text \<open>
  A probe that answers true at the midpoint 0 keeps the loop running for ever on the
  Range \<open>(0, 0)\<close>: the Range becomes \<open>(1, 0)\<close>, whose midpoint is 0 again.
\<close>

lemma bisect_loop_runs_forever:
  assumes "get_run_state st b s = ''bisect''"
    and "get_bisect_range st b s = Inr (0, 0) \<or> get_bisect_range st b s = Inr (1, 0)"
    and "answer 0"
  shows "perform_bisection rounds b s (midpoint_probe b s answer) False st = None"
  using assms
proof (induction rounds arbitrary: st)
  case 0
  then show ?case by simp
next
  case (Suc rounds)
  let ?fn = "midpoint_probe b s answer"
  let ?st1 = "(reset_counters st)\<lparr>world := Suc (world st)\<rparr>"
  let ?st2 = "update_bisect_range b s 1 0 ?st1"
  from Suc.prems(2) obtain low where g: "get_bisect_range st b s = Inr (low, 0)"
    and l: "low = 0 \<or> low = 1" by auto
  from l have m: "(low + 0) div 2 = 0" by auto
  have f: "?fn (reset_counters st) = (Inr True, ?st1)"
    using midpoint_probe_answer [OF g, of answer] m Suc.prems(3) by simp
  have "perform_bisection (Suc rounds) b s ?fn False st = perform_bisection rounds b s ?fn False ?st2"
    using perform_bisection_bisect_round
            [where fn = ?fn and rounds = rounds and cli_interface = False, OF Suc.prems(1) g f] m
    by (simp add: Let_def del: perform_bisection.simps)
  moreover have "perform_bisection rounds b s ?fn False ?st2 = None"
    using Suc.prems(1,3) by (intro Suc.IH) simp_all
  ultimately show ?case by (simp only:)
qed

subsection \<open>One step under \<open>cli_interface\<close>\<close>

lemma backends_cases:
  assumes "map_of BACKENDS b = Some subs"
  shows "(b = ''eager'' \<and> subs = []) \<or> (b = ''aot_eager'' \<and> subs = [])
         \<or> (b = ''aot_eager_decomp_partition'' \<and> subs = [''decomposition''])
         \<or> (b = ''inductor'' \<and> subs = [''post_grad_passes'', ''lowerings''])"
  using assms by (simp add: BACKENDS_def split: if_splits)

lemma advance_backend_values:
  "advance_backend ''eager'' st = (Inr (Some ''aot_eager''), update_bisect_status ''aot_eager'' [] st)"
  "advance_backend ''aot_eager'' st =
     (Inr (Some ''aot_eager_decomp_partition''),
      update_bisect_status ''aot_eager_decomp_partition'' [] st)"
  "advance_backend ''aot_eager_decomp_partition'' st =
     (Inr (Some ''inductor''), update_bisect_status ''inductor'' [] st)"
  "advance_backend ''inductor'' st = (Inr None, st)"
  by (simp_all add: advance_backend_def BACKENDS_def Let_def)

lemma advance_subsystem_values:
  "advance_subsystem ''aot_eager_decomp_partition'' ''decomposition'' st = (Inr None, st)"
  "advance_subsystem ''inductor'' ''post_grad_passes'' st =
     (Inr (Some ''lowerings''),
      update_run_state ''inductor'' ''lowerings'' ''test_disable''
        (update_bisect_status ''inductor'' ''lowerings'' st))"
  "advance_subsystem ''inductor'' ''lowerings'' st = (Inr None, st)"
  by (simp_all add: advance_subsystem_def BACKENDS_def Let_def)

lemma test_function_value [simp]:
  "test_function command st = (Inr (command = ''good''), st)"
  by (simp add: test_function_def)

lemma cli_loop_backend_level:
  assumes "map_of BACKENDS b = Some subs"
  shows "\<exists>r. do_bisect_loop (Suc rounds) (test_function command) True b [] st =
               Some (r, state_after_step command b [] st)
             \<and> (r = Inl (SystemExit 0) \<or> (\<exists>v. r = Inr v))"
proof (cases "command = ''good''")
  case True
  from backends_cases [OF assms] show ?thesis
  proof (elim disjE conjE)
    assume "b = ''eager''"
    then show ?thesis using True
      by (simp add: state_after_step_def advance_backend_values falsy_def)
  next
    assume "b = ''aot_eager''"
    then show ?thesis using True
      by (simp add: state_after_step_def advance_backend_values falsy_def)
  next
    assume "b = ''aot_eager_decomp_partition''"
    then show ?thesis using True
      by (simp add: state_after_step_def advance_backend_values falsy_def)
  next
    assume "b = ''inductor''"
    then show ?thesis using True
      by (simp add: state_after_step_def advance_backend_values falsy_def)
  qed
next
  case False
  then show ?thesis using assms
    by (cases subs) (simp_all add: state_after_step_def Let_def)
qed

lemma cli_loop_test_disable_good:
  assumes "s \<noteq> []" and "get_run_state st b s = ''test_disable''"
  shows "do_bisect_loop (Suc rounds) (test_function ''good'') True b s st =
           Some (Inl (SystemExit 0), state_after_step ''good'' b s st)"
  using assms by (simp add: state_after_step_def Let_def)

lemma cli_loop_test_disable_bad:
  assumes "s \<noteq> []" and "get_run_state st b s = ''test_disable''"
    and "map_of BACKENDS b = Some subs" and "s \<in> set subs"
  shows "\<exists>r. do_bisect_loop (Suc rounds) (test_function ''bad'') True b s st =
               Some (r, state_after_step ''bad'' b s st)
             \<and> (r = Inl (SystemExit 0) \<or> (\<exists>v. r = Inr v))"
proof -
  from backends_cases [OF assms(3)] assms(4)
  consider "b = ''aot_eager_decomp_partition''" "s = ''decomposition''"
    | "b = ''inductor''" "s = ''post_grad_passes''"
    | "b = ''inductor''" "s = ''lowerings''"
    by auto
  then show ?thesis
  proof cases
    case 1
    then show ?thesis using assms(2)
      by (simp add: state_after_step_def Let_def advance_subsystem_values falsy_def)
  next
    case 2
    then show ?thesis using assms(2)
      by (simp add: state_after_step_def Let_def advance_subsystem_values falsy_def)
  next
    case 3
    then show ?thesis using assms(2)
      by (simp add: state_after_step_def Let_def advance_subsystem_values falsy_def)
  qed
qed

lemma cli_loop_find_max_bounds_bad:
  assumes "s \<noteq> []" and "get_run_state st b s = ''find_max_bounds''"
    and "range_readable st b s"
  shows "do_bisect_loop (Suc rounds) (test_function ''bad'') True b s st =
           Some (Inl (SystemExit 0), state_after_step ''bad'' b s st)"
  using assms
  by (auto simp: state_after_step_def Let_def range_readable_def split: sum.splits)

lemma cli_loop_bisect:
  assumes "s \<noteq> []" and "get_run_state st b s = ''bisect''"
    and "range_readable st b s" and "get_subsystem st = Inr s"
  shows "\<exists>r. do_bisect_loop (Suc rounds) (test_function command) True b s st =
               Some (r, state_after_step command b s st)
             \<and> (r = Inl (SystemExit 0) \<or> (\<exists>v. r = Inr v))"
proof -
  from assms(3) obtain low high where g: "get_bisect_range st b s = Inr (low, high)"
    by (auto simp: range_readable_def split: sum.splits)
  let ?fixed = "command = ''good''"
  let ?low' = "if ?fixed then (low + high) div 2 + 1 else low"
  let ?high' = "if ?fixed then high else (low + high) div 2"
  let ?st'' = "update_bisect_range b s ?low' ?high' (reset_counters st)"
  have t: "state_after_step command b s st = ?st''"
    using assms(1,2) g by (simp add: state_after_step_def Let_def)
  have r0: "get_run_state (reset_counters st) b s = ''bisect''"
    and g0: "get_bisect_range (reset_counters st) b s = Inr (low, high)"
    and f0: "test_function command (reset_counters (reset_counters st)) = (Inr ?fixed, reset_counters st)"
    using assms(2) g by simp_all
  note round = perform_bisection_bisect_round
                 [where fn = "test_function command" and rounds = rounds and cli_interface = True,
                  OF r0 g0 f0]
  show ?thesis
  proof (cases "?low' = ?high'")
    case True
    have p: "perform_bisection (Suc rounds) b s (test_function command) True (reset_counters st) =
               Some (Inr True, ?st'')"
      using round True by (simp only: Let_def if_True if_False simp_thms)
    have c: "get_subsystem ?st'' = Inr s" using assms(4) by simp
    have g'': "get_bisect_range ?st'' b s = Inr (?low', ?high')" by simp
    show ?thesis
      using do_bisect_loop_found [OF assms(1) p c g''] t by simp
  next
    case False
    have p: "perform_bisection (Suc rounds) b s (test_function command) True (reset_counters st) =
               Some (Inl (SystemExit 0), ?st'')"
      using round False by (simp only: Let_def if_True if_False simp_thms)
    show ?thesis
      using p t assms(1) by (simp add: Let_def del: perform_bisection.simps)
  qed
qed

lemma cli_loop_step:
  assumes "command = ''good'' \<or> command = ''bad''"
    and "no_fatal_error command b s st"
    and "get_subsystem st = Inr s"
  shows "\<exists>r. do_bisect_loop (Suc rounds) (test_function command) True b s st =
               Some (r, state_after_step command b s st)
             \<and> (r = Inl (SystemExit 0) \<or> (\<exists>v. r = Inr v))"
proof -
  from assms(2) obtain subs where m: "map_of BACKENDS b = Some subs"
    by (auto simp: no_fatal_error_def split: option.splits)
  show ?thesis
  proof (cases "s = []")
    case True
    then show ?thesis using cli_loop_backend_level [OF m, of rounds command st] by blast
  next
    case False
    with assms(2) m have mem: "s \<in> set subs"
      and rs: "get_run_state st b s = ''test_disable''
               \<or> (get_run_state st b s = ''find_max_bounds'' \<and> command = ''bad''
                   \<and> range_readable st b s)
               \<or> (get_run_state st b s = ''bisect'' \<and> range_readable st b s)"
      by (simp_all add: no_fatal_error_def Let_def)
    from rs show ?thesis
    proof (elim disjE conjE)
      assume t: "get_run_state st b s = ''test_disable''"
      from assms(1) show ?thesis
      proof
        assume "command = ''good''"
        then show ?thesis using cli_loop_test_disable_good [OF False t, of rounds] by blast
      next
        assume "command = ''bad''"
        then show ?thesis using cli_loop_test_disable_bad [OF False t m mem, of rounds] by blast
      qed
    next
      assume f: "get_run_state st b s = ''find_max_bounds''" and c: "command = ''bad''"
        and r: "range_readable st b s"
      show ?thesis using cli_loop_find_max_bounds_bad [OF False f r, of rounds] c by blast
    next
      assume f: "get_run_state st b s = ''bisect''" and r: "range_readable st b s"
      show ?thesis by (rule cli_loop_bisect [OF False f r assms(3)])
    qed
  qed
qed

lemma cli_do_bisect_step:
  assumes "command = ''good'' \<or> command = ''bad''"
    and "get_backend st = Inr b" and "b \<noteq> []"
    and "get_subsystem st = Inr s"
    and "no_fatal_error command b s st"
  shows "\<exists>r. do_bisect (Suc rounds) (test_function command) True st =
               Some (r, state_after_step command b s st)
             \<and> (r = Inl (SystemExit 0) \<or> (\<exists>v. r = Inr v))"
  using cli_loop_step [OF assms(1,5,4), of rounds] assms(2,3,4)
  by (simp add: do_bisect_def do_bisect_session_def del: do_bisect_loop.simps)

subsection \<open>The cursor in the store\<close>

lemma persisted_cursor_cong:
  assumes "cache_root st' = cache_root st"
    and "files st' (bisect_status_path st) = files st (bisect_status_path st)"
  shows "persisted_cursor st' = persisted_cursor st"
  using assms paths_cong(4) [OF assms(1)]
  by (simp add: persisted_cursor_def read_lines_from_file_def)

lemma persisted_cursor_frame [simp]:
  "persisted_cursor (update_run_state b s r st) = persisted_cursor st"
  "persisted_cursor (update_bisect_range b s l h st) = persisted_cursor st"
  "persisted_cursor (reset_counters st) = persisted_cursor st"
  by (rule persisted_cursor_cong; simp)+

lemma update_bisect_status_frame [simp]:
  "get_run_state (update_bisect_status b' s' st) b s = get_run_state st b s"
  "get_bisect_range (update_bisect_status b' s' st) b s = get_bisect_range st b s"
  by (rule get_run_state_cong get_bisect_range_cong; simp)+

lemma field_value_line:
  assumes "key = ''backend='' \<or> key = ''subsystem=''"
    and "\<forall>c\<in>set v. \<not> isspace c \<and> c \<noteq> CHR ''=''"
  shows "field_value (key @ v @ [CHR 0x0A]) = Inr v"
proof -
  have k: "\<forall>c\<in>set key. \<not> isspace c"
    using assms(1) by (auto simp: isspace_def)
  with assms(2) have ns: "\<forall>c\<in>set (key @ v). \<not> isspace c"
    by auto
  have ne: "CHR ''='' \<notin> set v"
    using assms(2) by blast
  have "strip ((key @ v) @ [CHR 0x0A]) = key @ v"
    using ns by (rule strip_line)
  then show ?thesis
    using assms(1) split_no_sep [OF ne] by (auto simp: field_value_def item_def)
qed

lemma readlines_status:
  assumes "\<forall>c\<in>set b. \<not> isspace c" and "\<forall>c\<in>set s. \<not> isspace c"
  shows "readlines (''backend='' @ b @ [CHR 0x0A] @ ''subsystem='' @ s @ [CHR 0x0A]) =
           [''backend='' @ b @ [CHR 0x0A], ''subsystem='' @ s @ [CHR 0x0A]]"
proof -
  have sp: "isspace (CHR 0x0A)" "isspace (CHR 0x0D)" by (simp_all add: isspace_def)
  with assms have nb: "CHR 0x0A \<notin> set b" "CHR 0x0D \<notin> set b"
    and ns: "CHR 0x0A \<notin> set s" "CHR 0x0D \<notin> set s" by auto
  have cr: "CHR 0x0D \<notin> set (''backend='' @ b @ [CHR 0x0A] @ ''subsystem='' @ s @ [CHR 0x0A])"
    using nb ns by auto
  have l1: "CHR 0x0A \<notin> set (''backend='' @ b)" using nb by auto
  have l2: "CHR 0x0A \<notin> set (''subsystem='' @ s)" using ns by auto
  have "keepends ((''backend='' @ b) @ CHR 0x0A # ((''subsystem='' @ s) @ CHR 0x0A # [])) =
          ((''backend='' @ b) @ [CHR 0x0A]) # ((''subsystem='' @ s) @ [CHR 0x0A]) # keepends []"
    by (simp only: keepends_line [OF l1] keepends_line [OF l2])
  then show ?thesis
    using universal_newlines_id [OF cr] by (simp add: readlines_def)
qed

lemma persisted_cursor_update:
  assumes "\<forall>c\<in>set b. \<not> isspace c \<and> c \<noteq> CHR ''=''"
    and "\<forall>c\<in>set s. \<not> isspace c \<and> c \<noteq> CHR ''=''"
  shows "persisted_cursor (update_bisect_status b s st) = (Inr b, Inr s)"
proof -
  have p: "bisect_status_path (update_bisect_status b s st) = bisect_status_path st"
    by (rule paths_cong) simp
  have r: "readlines (''backend='' @ b @ [CHR 0x0A] @ ''subsystem='' @ s @ [CHR 0x0A]) =
           [''backend='' @ b @ [CHR 0x0A], ''subsystem='' @ s @ [CHR 0x0A]]"
    using assms by (intro readlines_status) blast+
  have f1: "field_value (''backend='' @ b @ [CHR 0x0A]) = Inr b"
    by (rule field_value_line) (simp, rule assms(1))
  have f2: "field_value (''subsystem='' @ s @ [CHR 0x0A]) = Inr s"
    by (rule field_value_line) (simp, rule assms(2))
  show ?thesis
    using r f1 f2
    by (simp add: persisted_cursor_def read_lines_from_file_def p startswith_def)
qed

lemma cursor_written:
  "persisted_cursor (update_bisect_status ''aot_eager'' [] st) = (Inr ''aot_eager'', Inr [])"
  "persisted_cursor (update_bisect_status ''aot_eager_decomp_partition'' [] st) =
     (Inr ''aot_eager_decomp_partition'', Inr [])"
  "persisted_cursor (update_bisect_status ''inductor'' [] st) = (Inr ''inductor'', Inr [])"
  "persisted_cursor (update_bisect_status ''aot_eager_decomp_partition'' ''decomposition'' st) =
     (Inr ''aot_eager_decomp_partition'', Inr ''decomposition'')"
  "persisted_cursor (update_bisect_status ''inductor'' ''post_grad_passes'' st) =
     (Inr ''inductor'', Inr ''post_grad_passes'')"
  "persisted_cursor (update_bisect_status ''inductor'' ''lowerings'' st) =
     (Inr ''inductor'', Inr ''lowerings'')"
  by (rule persisted_cursor_update; simp add: isspace_def)+

lemma next_in_order_values:
  "next_in_order (map fst BACKENDS) ''eager'' = Some ''aot_eager''"
  "next_in_order (map fst BACKENDS) ''aot_eager'' = Some ''aot_eager_decomp_partition''"
  "next_in_order (map fst BACKENDS) ''aot_eager_decomp_partition'' = Some ''inductor''"
  "next_in_order (map fst BACKENDS) ''inductor'' = None"
  "next_in_order [''decomposition''] ''decomposition'' = None"
  "next_in_order [''post_grad_passes'', ''lowerings''] ''post_grad_passes'' = Some ''lowerings''"
  "next_in_order [''post_grad_passes'', ''lowerings''] ''lowerings'' = None"
  by (simp_all add: next_in_order_def BACKENDS_def)

lemma step_persists_backend_level:
  assumes "map_of BACKENDS b = Some subs"
  shows "transition_persisted command b [] st (state_after_step command b [] st)"
proof (cases "command = ''good''")
  case True
  from backends_cases [OF assms] show ?thesis
  proof (elim disjE conjE)
    assume "b = ''eager''"
    then show ?thesis using True
      by (simp add: transition_persisted_def state_after_step_def advance_backend_values
          next_in_order_values cursor_written)
  next
    assume "b = ''aot_eager''"
    then show ?thesis using True
      by (simp add: transition_persisted_def state_after_step_def advance_backend_values
          next_in_order_values cursor_written)
  next
    assume "b = ''aot_eager_decomp_partition''"
    then show ?thesis using True
      by (simp add: transition_persisted_def state_after_step_def advance_backend_values
          next_in_order_values cursor_written)
  next
    assume "b = ''inductor''"
    then show ?thesis using True
      by (simp add: transition_persisted_def state_after_step_def advance_backend_values
          next_in_order_values cursor_written)
  qed
next
  case False
  from backends_cases [OF assms] show ?thesis
  proof (elim disjE conjE)
    assume "b = ''eager''" "subs = []"
    then show ?thesis using False assms
      by (simp add: transition_persisted_def state_after_step_def subsystems_of_def)
  next
    assume "b = ''aot_eager''" "subs = []"
    then show ?thesis using False assms
      by (simp add: transition_persisted_def state_after_step_def subsystems_of_def)
  next
    assume "b = ''aot_eager_decomp_partition''" "subs = [''decomposition'']"
    then show ?thesis using False assms
      by (simp add: transition_persisted_def state_after_step_def subsystems_of_def
          cursor_written)
  next
    assume "b = ''inductor''" "subs = [''post_grad_passes'', ''lowerings'']"
    then show ?thesis using False assms
      by (simp add: transition_persisted_def state_after_step_def subsystems_of_def
          cursor_written)
  qed
qed

lemma step_persists_subsystem_level:
  assumes "command = ''good'' \<or> command = ''bad''"
    and "s \<noteq> []"
    and "map_of BACKENDS b = Some subs" and "s \<in> set subs"
    and "get_run_state st b s = ''test_disable''
         \<or> (get_run_state st b s = ''find_max_bounds'' \<and> command = ''bad''
             \<and> range_readable st b s)
         \<or> (get_run_state st b s = ''bisect'' \<and> range_readable st b s)"
  shows "transition_persisted command b s st (state_after_step command b s st)"
  using assms(5)
proof (elim disjE conjE)
  assume t: "get_run_state st b s = ''test_disable''"
  from assms(1) show ?thesis
  proof
    assume "command = ''good''"
    then show ?thesis using t assms(2)
      by (simp add: transition_persisted_def state_after_step_def Let_def)
  next
    assume c: "command = ''bad''"
    from backends_cases [OF assms(3)] assms(4)
    consider "b = ''aot_eager_decomp_partition''" "s = ''decomposition''"
        "subs = [''decomposition'']"
      | "b = ''inductor''" "s = ''post_grad_passes''" "subs = [''post_grad_passes'', ''lowerings'']"
      | "b = ''inductor''" "s = ''lowerings''" "subs = [''post_grad_passes'', ''lowerings'']"
      by auto
    then show ?thesis
    proof cases
      case 1
      then show ?thesis using t c assms(3)
        by (simp add: transition_persisted_def state_after_step_def Let_def subsystems_of_def
            advance_subsystem_values next_in_order_values)
    next
      case 2
      then show ?thesis using t c assms(3)
        by (simp add: transition_persisted_def state_after_step_def Let_def subsystems_of_def
            advance_subsystem_values next_in_order_values cursor_written)
    next
      case 3
      then show ?thesis using t c assms(3)
        by (simp add: transition_persisted_def state_after_step_def Let_def subsystems_of_def
            advance_subsystem_values next_in_order_values)
    qed
  qed
next
  assume "get_run_state st b s = ''find_max_bounds''" and "command = ''bad''"
  then show ?thesis using assms(2)
    by (simp add: transition_persisted_def state_after_step_def Let_def)
next
  assume f: "get_run_state st b s = ''bisect''" and r: "range_readable st b s"
  from r obtain low high where g: "get_bisect_range st b s = Inr (low, high)"
    by (auto simp: range_readable_def split: sum.splits)
  show ?thesis using f g assms(2)
    by (simp add: transition_persisted_def state_after_step_def Let_def)
qed

lemma step_persists:
  assumes "command = ''good'' \<or> command = ''bad''"
    and "no_fatal_error command b s st"
  shows "transition_persisted command b s st (state_after_step command b s st)"
proof -
  from assms(2) obtain subs where m: "map_of BACKENDS b = Some subs"
    by (auto simp: no_fatal_error_def split: option.splits)
  show ?thesis
  proof (cases "s = []")
    case True
    then show ?thesis using step_persists_backend_level [OF m, of command st] by simp
  next
    case False
    with assms(2) m have mem: "s \<in> set subs"
      and rs: "get_run_state st b s = ''test_disable''
               \<or> (get_run_state st b s = ''find_max_bounds'' \<and> command = ''bad''
                   \<and> range_readable st b s)
               \<or> (get_run_state st b s = ''bisect'' \<and> range_readable st b s)"
      by (simp_all add: no_fatal_error_def Let_def)
    show ?thesis by (rule step_persists_subsystem_level [OF assms(1) False m mem rs])
  qed
qed

section \<open>The guard hook\<close>

text \<open>
  C9. Querying the Range of a (backend, subsystem) for which no Range was ever
  persisted (its file does not exist) raises \<open>RuntimeError\<close>; no default is returned.
\<close>

theorem get_bisect_range_missing:
  assumes "files st (bisect_range_path st backend subsystem) = None"
  shows "get_bisect_range st backend subsystem =
           Inl (RuntimeError (''Trying to get bisect range when it is not set: subsystem ''
                              @ subsystem))"
  using assms by (simp add: get_bisect_range_def read_lines_from_file_def)

theorem get_bisect_range_missing_witness:
  "files fresh_process (bisect_range_path fresh_process ''inductor'' ''lowerings'') = None
   \<and> get_bisect_range fresh_process ''inductor'' ''lowerings'' =
       Inl (RuntimeError ''Trying to get bisect range when it is not set: subsystem lowerings'')"
proof -
  have h: "files fresh_process (bisect_range_path fresh_process ''inductor'' ''lowerings'') = None"
    by (simp add: fresh_process_def)
  show ?thesis
    using h get_bisect_range_missing [OF h] by simp
qed

text \<open>
  C8. \<open>get_backend\<close> and \<open>get_subsystem\<close> return a string in every state, so
  \<open>get_is_bisection_enabled\<close> is true in every state, and the module's initialisation
  sets \<open>bisection_enabled\<close> to true whatever the store and the environment hold.
\<close>

theorem bisection_enabled_at_import:
  "(\<exists>b. get_backend st = Inr b) \<and> (\<exists>s. get_subsystem st = Inr s)
   \<and> get_is_bisection_enabled st = Inr True
   \<and> module_init st = Inr (st\<lparr>bisection_enabled := True\<rparr>)"
proof -
  obtain s where s: "get_subsystem st = Inr s"
    using get_subsystem_returns by blast
  then have "get_is_bisection_enabled st = Inr True"
    by (simp add: get_is_bisection_enabled_def)
  then show ?thesis
    using s get_backend_returns [of st] by (simp add: module_init_def)
qed

text \<open>
  C4. A guard-hook call that matches the cursor, with bisection enabled, no
  \<open>TORCH_BISECT_MAX\<close>, run state \<open>bisect\<close> and persisted Range \<open>(low, high)\<close>, returns
  true exactly when the counter value it reads is greater than \<open>(low + high) div 2\<close>,
  and it increments the counter by one.
\<close>

theorem guard_bisect_decision:
  assumes "bisection_enabled st"
    and "get_backend st = Inr backend"
    and "get_subsystem st = Inr subsystem"
    and "truthy (get_env_val st ''TORCH_BISECT_MAX'') = None"
    and "get_run_state st backend subsystem = ''bisect''"
    and "get_bisect_range st backend subsystem = Inr (low, high)"
  shows "fst (disable_subsystem backend subsystem debug_info st) =
           Inr (fst (get_system_counter subsystem False st) > (low + high) div 2)
         \<and> fst (get_system_counter subsystem False
                  (snd (disable_subsystem backend subsystem debug_info st))) =
           fst (get_system_counter subsystem False st) + 1"
  using assms
  by (simp add: disable_subsystem_def Let_def get_system_counter_def set_debug_info_def
      split: prod.splits)

theorem guard_bisect_decision_witness:
  "bisection_enabled (bisecting 0 7\<lparr>subsystem_call_counter := [''lowerings'' \<mapsto> 5]\<rparr>)
   \<and> get_bisect_range (bisecting 0 7\<lparr>subsystem_call_counter := [''lowerings'' \<mapsto> 5]\<rparr>)
        ''inductor'' ''lowerings'' = Inr (0, 7)
   \<and> fst (disable_subsystem ''inductor'' ''lowerings'' None
            (bisecting 0 7\<lparr>subsystem_call_counter := [''lowerings'' \<mapsto> 5]\<rparr>)) = Inr True
   \<and> fst (get_system_counter ''lowerings'' False
            (snd (disable_subsystem ''inductor'' ''lowerings'' None
                    (bisecting 0 7\<lparr>subsystem_call_counter := [''lowerings'' \<mapsto> 5]\<rparr>)))) = 6"
proof -
  let ?st = "bisecting 0 7\<lparr>subsystem_call_counter := [''lowerings'' \<mapsto> 5]\<rparr>"
  have h1: "bisection_enabled ?st" by code_simp
  have h2: "get_backend ?st = Inr ''inductor''" by code_simp
  have h3: "get_subsystem ?st = Inr ''lowerings''" by code_simp
  have h4: "truthy (get_env_val ?st ''TORCH_BISECT_MAX'') = None" by code_simp
  have h5: "get_run_state ?st ''inductor'' ''lowerings'' = ''bisect''" by code_simp
  have h6: "get_bisect_range ?st ''inductor'' ''lowerings'' = Inr (0, 7)" by code_simp
  have c: "fst (get_system_counter ''lowerings'' False ?st) = 5" by code_simp
  show ?thesis
    using h1 h6 guard_bisect_decision [OF h1 h2 h3 h4 h5 h6, of None] c by simp
qed

text \<open>
  C5. The guard hook records the diagnostic string although the persisted range is
  wide: with Range \<open>(0, 7)\<close>, so \<open>high - low = 7\<close>, the first call of a probe stores the
  producer's output under the count 0. The test in the code is \<open>low - high \<le> 2\<close>.
\<close>

theorem debug_info_recorded_on_wide_range:
  "get_bisect_range (bisecting 0 7) ''inductor'' ''lowerings'' = Inr (0, 7)
   \<and> call_counter_debug_info (bisecting 0 7) 0 = None
   \<and> fst (disable_subsystem ''inductor'' ''lowerings'' (Some (\<lambda>_. ''lowering of aten.add''))
            (bisecting 0 7)) = Inr False
   \<and> call_counter_debug_info
        (snd (disable_subsystem ''inductor'' ''lowerings'' (Some (\<lambda>_. ''lowering of aten.add''))
                (bisecting 0 7))) 0 = Some ''lowering of aten.add''"
  by code_simp

text \<open>
  C6, as the code has it. When the cursor matches, bisection is enabled and there is
  no \<open>TORCH_BISECT_MAX\<close>, every persisted run state other than \<open>test_disable\<close> and
  \<open>find_max_bounds\<close> (so \<open>bisect\<close>, an unknown value, and the empty or absent one)
  takes the branch of the hook that reads the persisted Range: the hook raises what
  \<open>get_bisect_range\<close> raises, which is \<open>RuntimeError\<close> when there is no range file, and
  otherwise it returns the decision \<open>count > mid\<close>. The run state itself is never an
  error in the hook. It is one in \<open>perform_bisection\<close>: there a run state that is none
  of the three raises \<open>RuntimeError\<close> before the probe runs, with the counters reset and
  nothing written.
\<close>

theorem guard_other_run_state:
  assumes "bisection_enabled st"
    and "get_backend st = Inr backend"
    and "get_subsystem st = Inr subsystem"
    and "truthy (get_env_val st ''TORCH_BISECT_MAX'') = None"
    and "get_run_state st backend subsystem \<noteq> ''test_disable''"
    and "get_run_state st backend subsystem \<noteq> ''find_max_bounds''"
  shows "fst (disable_subsystem backend subsystem debug_info st) =
           (case get_bisect_range st backend subsystem of
              Inl e \<Rightarrow> Inl e
            | Inr (low, high) \<Rightarrow>
                Inr (fst (get_system_counter subsystem False st) > (low + high) div 2))
         \<and> (files st (bisect_range_path st backend subsystem) = None \<longrightarrow>
              fst (disable_subsystem backend subsystem debug_info st) =
                Inl (RuntimeError (''Trying to get bisect range when it is not set: subsystem ''
                                   @ subsystem)))
         \<and> (get_run_state st backend subsystem \<noteq> ''bisect'' \<longrightarrow>
              perform_bisection (Suc rounds) backend subsystem fn cli_interface st =
                Some (Inl (RuntimeError (''Unexpected run_state ''
                                         @ get_run_state st backend subsystem)),
                      reset_counters st))"
proof -
  have a: "fst (disable_subsystem backend subsystem debug_info st) =
           (case get_bisect_range st backend subsystem of
              Inl e \<Rightarrow> Inl e
            | Inr (low, high) \<Rightarrow>
                Inr (fst (get_system_counter subsystem False st) > (low + high) div 2))"
    using assms
    by (simp add: disable_subsystem_def Let_def get_system_counter_def
        split: prod.splits sum.splits)
  have b: "files st (bisect_range_path st backend subsystem) = None \<Longrightarrow>
        get_bisect_range st backend subsystem =
          Inl (RuntimeError (''Trying to get bisect range when it is not set: subsystem ''
                             @ subsystem))"
    by (simp add: get_bisect_range_def read_lines_from_file_def)
  have c: "get_run_state st backend subsystem \<noteq> ''bisect'' \<Longrightarrow>
        perform_bisection (Suc rounds) backend subsystem fn cli_interface st =
          Some (Inl (RuntimeError (''Unexpected run_state ''
                                   @ get_run_state st backend subsystem)),
                reset_counters st)"
    using assms(5,6) by (simp add: Let_def)
  from a b c show ?thesis by simp
qed

theorem guard_other_run_state_witness:
  "get_run_state (session_in ''done'') ''inductor'' ''lowerings'' = ''done''
   \<and> files (session_in ''done'')
        (bisect_range_path (session_in ''done'') ''inductor'' ''lowerings'') = None
   \<and> fst (disable_subsystem ''inductor'' ''lowerings'' None (session_in ''done'')) =
        Inl (RuntimeError ''Trying to get bisect range when it is not set: subsystem lowerings'')
   \<and> perform_bisection 1 ''inductor'' ''lowerings'' (test_function ''bad'') True
        (session_in ''done'') =
        Some (Inl (RuntimeError ''Unexpected run_state done''),
              reset_counters (session_in ''done''))"
proof -
  let ?st = "session_in ''done''"
  have h1: "bisection_enabled ?st" by code_simp
  have h2: "get_backend ?st = Inr ''inductor''" by code_simp
  have h3: "get_subsystem ?st = Inr ''lowerings''" by code_simp
  have h4: "truthy (get_env_val ?st ''TORCH_BISECT_MAX'') = None" by code_simp
  have r: "get_run_state ?st ''inductor'' ''lowerings'' = ''done''" by code_simp
  have h5: "get_run_state ?st ''inductor'' ''lowerings'' \<noteq> ''test_disable''"
    and h6: "get_run_state ?st ''inductor'' ''lowerings'' \<noteq> ''find_max_bounds''"
    and h7: "get_run_state ?st ''inductor'' ''lowerings'' \<noteq> ''bisect''"
    by (simp_all add: r)
  have f: "files ?st (bisect_range_path ?st ''inductor'' ''lowerings'') = None" by code_simp
  note t = guard_other_run_state
             [where debug_info = None and fn = "test_function ''bad''" and rounds = 0
                and cli_interface = True, OF h1 h2 h3 h4 h5 h6]
  have "fst (disable_subsystem ''inductor'' ''lowerings'' None ?st) =
          Inl (RuntimeError (''Trying to get bisect range when it is not set: subsystem ''
                             @ ''lowerings''))"
    using f t by blast
  moreover have "perform_bisection (Suc 0) ''inductor'' ''lowerings'' (test_function ''bad'') True ?st =
          Some (Inl (RuntimeError (''Unexpected run_state ''
                                   @ get_run_state ?st ''inductor'' ''lowerings'')),
                reset_counters ?st)"
    using h7 t by blast
  ultimately show ?thesis
    using r f by (simp del: perform_bisection.simps)
qed

text \<open>
  C6 as stated fails: with the run state \<open>done\<close>, which is none of the three, and a
  Range persisted, the hook returns a decision.
\<close>

theorem guard_unknown_run_state_counterexample:
  "get_run_state (update_bisect_range ''inductor'' ''lowerings'' 0 7 (session_in ''done''))
     ''inductor'' ''lowerings'' = ''done''
   \<and> fst (disable_subsystem ''inductor'' ''lowerings'' None
            (update_bisect_range ''inductor'' ''lowerings'' 0 7 (session_in ''done''))) = Inr False"
  by code_simp

text \<open>
  C7. In the run state \<open>find_max_bounds\<close>, when the probe returns true,
  \<open>perform_bisection\<close> raises \<open>RuntimeError\<close>. The state it leaves is the state the probe
  left: nothing was written, so a probe that does not itself touch the run state file
  leaves the run state at \<open>find_max_bounds\<close>.
\<close>

theorem find_max_bounds_success_is_fatal:
  assumes "get_run_state st backend subsystem = ''find_max_bounds''"
    and "fn (reset_counters st) = (Inr True, st')"
  shows "perform_bisection (Suc rounds) backend subsystem fn cli_interface st =
           Some (Inl (RuntimeError
                        (''Function succeeded with 'find_max_bounds' status for ''
                         @ backend @ '' - '' @ subsystem @ ''.'')), st')
         \<and> (cache_root st' = cache_root st
              \<and> files st' (run_state_path st backend subsystem) =
                  files st (run_state_path st backend subsystem)
            \<longrightarrow> get_run_state st' backend subsystem = ''find_max_bounds'')"
  using assms get_run_state_cong [of st' st backend subsystem]
  by (simp add: Let_def)

theorem find_max_bounds_success_is_fatal_witness:
  "get_run_state (session_in ''find_max_bounds'') ''inductor'' ''lowerings'' = ''find_max_bounds''
   \<and> perform_bisection 1 ''inductor'' ''lowerings'' (test_function ''good'') True
        (session_in ''find_max_bounds'') =
       Some (Inl (RuntimeError
                    ''Function succeeded with 'find_max_bounds' status for inductor - lowerings.''),
             reset_counters (session_in ''find_max_bounds''))
   \<and> get_run_state (reset_counters (session_in ''find_max_bounds'')) ''inductor'' ''lowerings'' =
       ''find_max_bounds''"
proof -
  let ?st = "session_in ''find_max_bounds''"
  have h1: "get_run_state ?st ''inductor'' ''lowerings'' = ''find_max_bounds''" by code_simp
  have h2: "test_function ''good'' (reset_counters ?st) = (Inr True, reset_counters ?st)"
    by (simp add: test_function_def)
  show ?thesis
    using h1 find_max_bounds_success_is_fatal
            [where fn = "test_function ''good''" and rounds = 0 and cli_interface = True,
             OF h1 h2]
    by simp
qed

section \<open>The state machine\<close>

text \<open>
  C3. One round of \<open>perform_bisection\<close> in the run state \<open>bisect\<close>, with persisted
  Range \<open>(low, high)\<close> and \<open>mid = (low + high) div 2\<close>: when the probe returns true the
  persisted Range becomes \<open>(mid + 1, high)\<close>, when it returns false \<open>(low, mid)\<close>. When
  the two ends of the new Range are equal, \<open>perform_bisection\<close> returns true, and
  the loop of \<open>do_bisect\<close> returns the backend, the subsystem of the cursor and \<open>low\<close>.
  Otherwise the round ends with \<open>sys.exit(0)\<close> under \<open>cli_interface\<close>, and the next
  round starts without it.
\<close>

theorem bisect_round:
  assumes "get_run_state st backend subsystem = ''bisect''"
    and "get_bisect_range st backend subsystem = Inr (low, high)"
    and "fn (reset_counters st) = (Inr issue_fixed, st')"
  shows "let mid = (low + high) div 2;
             new = (if issue_fixed then (mid + 1, high) else (low, mid));
             st'' = update_bisect_range backend subsystem (fst new) (snd new) st'
         in get_bisect_range st'' backend subsystem = Inr new
            \<and> (fst new = snd new \<longrightarrow>
                 perform_bisection (Suc rounds) backend subsystem fn cli_interface st =
                   Some (Inr True, st''))
            \<and> (fst new = snd new \<and> subsystem \<noteq> [] \<and> get_subsystem st' = Inr subsystem \<longrightarrow>
                 do_bisect_loop (Suc rounds) fn cli_interface backend subsystem st =
                   Some (Inr ([backend, subsystem], fst new), st''))
            \<and> (fst new \<noteq> snd new \<and> cli_interface \<longrightarrow>
                 perform_bisection (Suc rounds) backend subsystem fn cli_interface st =
                   Some (Inl (SystemExit 0), st''))
            \<and> (fst new \<noteq> snd new \<and> \<not> cli_interface \<longrightarrow>
                 perform_bisection (Suc rounds) backend subsystem fn cli_interface st =
                   perform_bisection rounds backend subsystem fn cli_interface st'')"
proof -
  let ?low' = "if issue_fixed then (low + high) div 2 + 1 else low"
  let ?high' = "if issue_fixed then high else (low + high) div 2"
  let ?st'' = "update_bisect_range backend subsystem ?low' ?high' st'"
  note step = perform_bisection_bisect_round
    [where fn = fn and rounds = rounds and cli_interface = cli_interface, OF assms]
  have range: "get_bisect_range ?st'' backend subsystem = Inr (?low', ?high')"
    by simp
  have loop: "do_bisect_loop (Suc rounds) fn cli_interface backend subsystem st =
                Some (Inr ([backend, subsystem], ?low'), ?st'')"
    if e: "?low' = ?high'" and n: "subsystem \<noteq> []" and c: "get_subsystem st' = Inr subsystem"
  proof (rule do_bisect_loop_found [OF n _ _ range])
    have r: "get_run_state (reset_counters st) backend subsystem = ''bisect''"
      and g: "get_bisect_range (reset_counters st) backend subsystem = Inr (low, high)"
      and f: "fn (reset_counters (reset_counters st)) = (Inr issue_fixed, st')"
      using assms by simp_all
    show "perform_bisection (Suc rounds) backend subsystem fn cli_interface (reset_counters st) =
            Some (Inr True, ?st'')"
      using perform_bisection_bisect_round
          [where fn = fn and rounds = rounds and cli_interface = cli_interface, OF r g f] e
      by (simp only: Let_def if_True simp_thms)
    show "get_subsystem ?st'' = Inr subsystem"
      using c by simp
  qed
  have a: "?low' = ?high' \<Longrightarrow>
           perform_bisection (Suc rounds) backend subsystem fn cli_interface st =
             Some (Inr True, ?st'')"
    using step by (simp only: Let_def if_True simp_thms)
  have b: "?low' \<noteq> ?high' \<Longrightarrow> cli_interface \<Longrightarrow>
           perform_bisection (Suc rounds) backend subsystem fn cli_interface st =
             Some (Inl (SystemExit 0), ?st'')"
    using step by (simp only: Let_def if_True if_False simp_thms)
  have c: "?low' \<noteq> ?high' \<Longrightarrow> \<not> cli_interface \<Longrightarrow>
           perform_bisection (Suc rounds) backend subsystem fn cli_interface st =
             perform_bisection rounds backend subsystem fn cli_interface ?st''"
    using step by (simp only: Let_def if_True if_False simp_thms)
  show ?thesis
  proof (cases issue_fixed)
    case True
    then show ?thesis
      using range a b c loop by (simp add: Let_def del: perform_bisection.simps do_bisect_loop.simps)
  next
    case False
    then show ?thesis
      using range a b c loop by (simp add: Let_def del: perform_bisection.simps do_bisect_loop.simps)
  qed
qed

theorem bisect_round_witness:
  "get_bisect_range (bisecting 2 3) ''inductor'' ''lowerings'' = Inr (2, 3)
   \<and> perform_bisection 1 ''inductor'' ''lowerings'' (test_function ''bad'') True (bisecting 2 3) =
       Some (Inr True,
             update_bisect_range ''inductor'' ''lowerings'' 2 2 (reset_counters (bisecting 2 3)))
   \<and> do_bisect_loop 1 (test_function ''bad'') True ''inductor'' ''lowerings'' (bisecting 2 3) =
       Some (Inr ([''inductor'', ''lowerings''], 2),
             update_bisect_range ''inductor'' ''lowerings'' 2 2 (reset_counters (bisecting 2 3)))
   \<and> get_bisect_range (bisecting 0 7) ''inductor'' ''lowerings'' = Inr (0, 7)
   \<and> perform_bisection 1 ''inductor'' ''lowerings'' (test_function ''good'') True (bisecting 0 7) =
       Some (Inl (SystemExit 0),
             update_bisect_range ''inductor'' ''lowerings'' 4 7 (reset_counters (bisecting 0 7)))"
proof -
  have r1: "get_run_state (bisecting 2 3) ''inductor'' ''lowerings'' = ''bisect''" by code_simp
  have g1: "get_bisect_range (bisecting 2 3) ''inductor'' ''lowerings'' = Inr (2, 3)"
    by (simp add: bisecting_def)
  have f1: "test_function ''bad'' (reset_counters (bisecting 2 3)) =
              (Inr False, reset_counters (bisecting 2 3))"
    by (simp add: test_function_def)
  have c1: "get_subsystem (reset_counters (bisecting 2 3)) = Inr ''lowerings''" by code_simp
  have r2: "get_run_state (bisecting 0 7) ''inductor'' ''lowerings'' = ''bisect''" by code_simp
  have g2: "get_bisect_range (bisecting 0 7) ''inductor'' ''lowerings'' = Inr (0, 7)"
    by (simp add: bisecting_def)
  have f2: "test_function ''good'' (reset_counters (bisecting 0 7)) =
              (Inr True, reset_counters (bisecting 0 7))"
    by (simp add: test_function_def)
  show ?thesis
    using g1 g2 c1
      bisect_round [where fn = "test_function ''bad''" and rounds = 0 and cli_interface = True,
                    OF r1 g1 f1]
      bisect_round [where fn = "test_function ''good''" and rounds = 0 and cli_interface = True,
                    OF r2 g2 f2]
    by (simp add: Let_def del: perform_bisection.simps do_bisect_loop.simps)
qed

text \<open>
  C1, as the code has it. In the run state \<open>find_max_bounds\<close>, a probe whose guarded
  call-site fires \<open>n \<ge> 1\<close> times, and which reports the issue when nothing is
  suppressed, leaves the Range \<open>(0, n - 1)\<close> persisted: every call writes the value the
  counter had before the call, and the last of them had \<open>n - 1\<close>. \<open>perform_bisection\<close>
  then sets the run state to \<open>bisect\<close>.
\<close>

theorem find_max_bounds_records_range:
  assumes "guard_active st backend subsystem"
    and "get_run_state st backend subsystem = ''find_max_bounds''"
    and "0 < n"
    and "\<not> verdict (replicate n False)"
  shows "\<exists>st'. get_bisect_range st' backend subsystem = Inr (0, int n - 1)
           \<and> get_run_state st' backend subsystem = ''bisect''
           \<and> perform_bisection (Suc rounds) backend subsystem
                (workload n backend subsystem verdict) cli_interface st =
               (if cli_interface then Some (Inl (SystemExit 0), st')
                else perform_bisection rounds backend subsystem
                       (workload n backend subsystem verdict) cli_interface st')"
proof -
  have a0: "guard_active (reset_counters st) backend subsystem"
    and r0: "get_run_state (reset_counters st) backend subsystem = ''find_max_bounds''"
    using assms by simp_all
  from call_sites_find_max_bounds [OF a0 r0, of n] obtain st1 where
    s: "call_sites n backend subsystem (reset_counters st) = (Inr (replicate n False), st1)"
    and r: "get_run_state st1 backend subsystem = ''find_max_bounds''"
    and g: "get_bisect_range st1 backend subsystem = Inr (0, int n - 1)"
    using assms(3) by auto
  have f: "workload n backend subsystem verdict (reset_counters st) = (Inr False, st1)"
    using s assms(4) by (simp add: workload_def)
  let ?st' = "update_run_state backend subsystem ''bisect'' st1"
  have "perform_bisection (Suc rounds) backend subsystem
          (workload n backend subsystem verdict) cli_interface st =
        (if cli_interface then Some (Inl (SystemExit 0), ?st')
         else perform_bisection rounds backend subsystem
                (workload n backend subsystem verdict) cli_interface ?st')"
    using assms(2) f g by (simp add: Let_def)
  moreover have "get_bisect_range ?st' backend subsystem = Inr (0, int n - 1)"
    using g by simp
  moreover have "get_run_state ?st' backend subsystem = ''bisect''"
    by simp
  ultimately show ?thesis by blast
qed

theorem find_max_bounds_records_range_witness:
  "guard_active (session_in ''find_max_bounds'') ''inductor'' ''lowerings''
   \<and> (\<exists>st'. get_bisect_range st' ''inductor'' ''lowerings'' = Inr (0, 6)
          \<and> get_run_state st' ''inductor'' ''lowerings'' = ''bisect''
          \<and> perform_bisection 1 ''inductor'' ''lowerings''
               (workload 7 ''inductor'' ''lowerings'' (\<lambda>decisions. decisions ! 3)) True
               (session_in ''find_max_bounds'') = Some (Inl (SystemExit 0), st'))"
proof -
  let ?st = "session_in ''find_max_bounds''"
  have h1: "guard_active ?st ''inductor'' ''lowerings''" by code_simp
  have h2: "get_run_state ?st ''inductor'' ''lowerings'' = ''find_max_bounds''" by code_simp
  have h3: "0 < (7::nat)" by simp
  have h4: "\<not> (\<lambda>decisions. decisions ! 3) (replicate 7 False)" by simp
  show ?thesis
    using h1 find_max_bounds_records_range
            [where verdict = "\<lambda>decisions. decisions ! 3" and rounds = 0 and cli_interface = True,
             OF h1 h2 h3 h4]
    by simp
qed

text \<open>
  C1 as stated fails: a call-site that fires 3 times leaves the Range \<open>(0, 2)\<close>, not
  \<open>(0, 3)\<close>.
\<close>

theorem find_max_bounds_range_counterexample:
  "map_option fst
     (perform_bisection 1 ''inductor'' ''lowerings''
        (workload 3 ''inductor'' ''lowerings'' (\<lambda>decisions. False)) True
        (session_in ''find_max_bounds'')) = Some (Inl (SystemExit 0))
   \<and> get_bisect_range
        (snd (the (perform_bisection 1 ''inductor'' ''lowerings''
                     (workload 3 ''inductor'' ''lowerings'' (\<lambda>decisions. False)) True
                     (session_in ''find_max_bounds''))))
        ''inductor'' ''lowerings'' = Inr (0, 2)
   \<and> get_run_state
        (snd (the (perform_bisection 1 ''inductor'' ''lowerings''
                     (workload 3 ''inductor'' ''lowerings'' (\<lambda>decisions. False)) True
                     (session_in ''find_max_bounds''))))
        ''inductor'' ''lowerings'' = ''bisect''"
  by code_simp

text \<open>
  C2, as the code has it. Let the persisted Range be \<open>(0, N)\<close> in the run state \<open>bisect\<close>,
  and let the probe be monotone the way the loop reads it: true at every midpoint
  below a culprit index in \<open>0 .. N\<close> (suppressing the calls above the midpoint still
  suppresses the culprit, so the issue is gone) and false from the culprit on. Then the
  loop of \<open>perform_bisection\<close> returns true, with the Range \<open>(culprit, culprit)\<close>
  persisted. The number of probes it runs is at least 1, at most \<open>k\<close> whenever
  \<open>N + 1 \<le> 2 ^ k\<close> and \<open>k \<ge> 1\<close>, and at least \<open>j\<close> whenever \<open>2 ^ j \<le> N + 1\<close>: it lies
  between the floor and the ceiling of \<open>log2 (N + 1)\<close>, and is 1 for \<open>N = 0\<close>. Every number
  of rounds from that number on is enough for the model to return.
\<close>

theorem bisect_loop_converges:
  assumes "get_run_state st backend subsystem = ''bisect''"
    and "get_bisect_range st backend subsystem = Inr (0, int N)"
    and "0 \<le> culprit" and "culprit \<le> int N"
    and "\<forall>mid. 0 \<le> mid \<and> mid \<le> int N \<longrightarrow> answer mid = (mid < culprit)"
  shows "\<exists>st' probes.
           (\<forall>rounds\<ge>probes.
              perform_bisection rounds backend subsystem
                (midpoint_probe backend subsystem answer) False st = Some (Inr True, st'))
           \<and> get_bisect_range st' backend subsystem = Inr (culprit, culprit)
           \<and> world st' = world st + probes
           \<and> 1 \<le> probes
           \<and> (\<forall>k. int N + 1 \<le> 2 ^ k \<longrightarrow> probes \<le> max 1 k)
           \<and> (\<forall>j. 2 ^ j \<le> int N + 1 \<longrightarrow> j \<le> probes)"
  using bisect_converges [OF assms] by simp

theorem bisect_loop_converges_witness:
  "get_bisect_range (bisecting 0 7) ''inductor'' ''lowerings'' = Inr (0, 7)
   \<and> (\<exists>st'. perform_bisection 3 ''inductor'' ''lowerings''
               (midpoint_probe ''inductor'' ''lowerings'' (\<lambda>mid. mid < 3)) False (bisecting 0 7) =
             Some (Inr True, st')
           \<and> get_bisect_range st' ''inductor'' ''lowerings'' = Inr (3, 3)
           \<and> world st' = world (bisecting 0 7) + 3)"
proof -
  let ?st = "bisecting 0 7"
  have h1: "get_run_state ?st ''inductor'' ''lowerings'' = ''bisect''" by code_simp
  have h2: "get_bisect_range ?st ''inductor'' ''lowerings'' = Inr (0, int 7)"
    by (simp add: bisecting_def)
  have h3: "(0::int) \<le> 3" and h4: "(3::int) \<le> int 7" by simp_all
  have h5: "\<forall>mid. 0 \<le> mid \<and> mid \<le> int 7 \<longrightarrow> (\<lambda>mid. mid < 3) mid = (mid < (3::int))" by simp
  from bisect_loop_converges [OF h1 h2 h3 h4 h5] obtain st' probes where
    run: "\<forall>rounds\<ge>probes.
            perform_bisection rounds ''inductor'' ''lowerings''
              (midpoint_probe ''inductor'' ''lowerings'' (\<lambda>mid. mid < 3)) False ?st =
            Some (Inr True, st')"
    and g: "get_bisect_range st' ''inductor'' ''lowerings'' = Inr (3, 3)"
    and w: "world st' = world ?st + probes"
    and up: "\<forall>k. int 7 + 1 \<le> 2 ^ k \<longrightarrow> probes \<le> max 1 k"
    and lo: "\<forall>j. 2 ^ j \<le> int 7 + 1 \<longrightarrow> j \<le> probes"
    by blast
  have "int 7 + 1 \<le> 2 ^ 3" by simp
  with up have "probes \<le> max 1 3" by blast
  moreover have "(2::int) ^ 3 \<le> int 7 + 1" by simp
  with lo have "3 \<le> probes" by blast
  ultimately have p: "probes = 3" by simp
  with run have "perform_bisection 3 ''inductor'' ''lowerings''
              (midpoint_probe ''inductor'' ''lowerings'' (\<lambda>mid. mid < 3)) False ?st =
            Some (Inr True, st')" by blast
  with g w p h2 show ?thesis by auto
qed

text \<open>
  C2 as stated fails. With \<open>N = 2\<close> and a probe that is false below the threshold 1 and
  true from it on, the loop ends after one probe, not two, and with the Range
  \<open>(2, 2)\<close>, not \<open>(1, 1)\<close>: a true result always moves the search up.
\<close>

theorem bisect_loop_counterexample:
  "map_option fst
     (perform_bisection 2 ''inductor'' ''lowerings''
        (midpoint_probe ''inductor'' ''lowerings'' (\<lambda>mid. 1 \<le> mid)) False (bisecting 0 2)) =
     Some (Inr True)
   \<and> get_bisect_range
        (snd (the (perform_bisection 2 ''inductor'' ''lowerings''
                     (midpoint_probe ''inductor'' ''lowerings'' (\<lambda>mid. 1 \<le> mid)) False
                     (bisecting 0 2))))
        ''inductor'' ''lowerings'' = Inr (2, 2)
   \<and> world (snd (the (perform_bisection 2 ''inductor'' ''lowerings''
                        (midpoint_probe ''inductor'' ''lowerings'' (\<lambda>mid. 1 \<le> mid)) False
                        (bisecting 0 2)))) = 1"
  by code_simp

section \<open>The command line\<close>

text \<open>
  C10, as the code has it. \<open>good\<close> or \<open>bad\<close> with no session, which is \<open>get_backend\<close>
  returning the empty string (no persisted cursor and no \<open>TORCH_BISECT_BACKEND\<close>),
  raises \<open>ValueError\<close> and runs no probe, whatever the number of rounds allowed. With
  a session, and in a state where the step meets none of the fatal errors of the
  state machine, one round is all that runs: the command persists the transition of
  one probe step with the constant predicate (\<open>good\<close> is true, \<open>bad\<close> is false), as the
  specification describes it and as the store shows it afterwards, and the process
  ends with status 0.
\<close>

theorem good_bad_one_step:
  assumes "command = ''good'' \<or> command = ''bad''"
    and "get_backend st = Inr backend"
    and "get_subsystem st = Inr subsystem"
  shows "(backend = [] \<longrightarrow>
            command_line_usage rounds [prog, command] st =
              Some (Inl (ValueError ''Must call start prior to good or bad''), st))
         \<and> (backend \<noteq> [] \<and> no_fatal_error command backend subsystem st \<longrightarrow>
              (\<exists>r st'. command_line_usage (Suc rounds) [prog, command] st = Some (r, st')
                       \<and> exit_status r = 0
                       \<and> transition_persisted command backend subsystem st st'))"
proof (intro conjI impI)
  assume "backend = []"
  then show "command_line_usage rounds [prog, command] st =
               Some (Inl (ValueError ''Must call start prior to good or bad''), st)"
    using assms(1,2) by (auto simp: command_line_usage_def)
next
  assume a: "backend \<noteq> [] \<and> no_fatal_error command backend subsystem st"
  let ?st' = "state_after_step command backend subsystem st"
  from a obtain r where
    d: "do_bisect (Suc rounds) (test_function command) True st = Some (r, ?st')"
    and r: "r = Inl (SystemExit 0) \<or> (\<exists>v. r = Inr v)"
    using cli_do_bisect_step [OF assms(1,2) _ assms(3), of rounds] by blast
  have t: "transition_persisted command backend subsystem st ?st'"
    using a by (intro step_persists [OF assms(1)]) simp
  have c: "command_line_usage (Suc rounds) [prog, command] st =
             (case r of Inl e \<Rightarrow> Some (Inl e, ?st') | Inr _ \<Rightarrow> Some (Inr (), ?st'))"
    using assms(1,2) a d
    by (auto simp: command_line_usage_def simp del: do_bisect_loop.simps split: sum.splits)
  from r show "\<exists>r st'. command_line_usage (Suc rounds) [prog, command] st = Some (r, st')
                  \<and> exit_status r = 0
                  \<and> transition_persisted command backend subsystem st st'"
  proof
    assume "r = Inl (SystemExit 0)"
    with c t show ?thesis by (auto simp: exit_status_def)
  next
    assume "\<exists>v. r = Inr v"
    with c t show ?thesis by (auto simp: exit_status_def)
  qed
qed

theorem good_bad_one_step_witness:
  "command_line_usage 1 [''bisect_helper.py'', ''good''] (fresh_process :: nat state) =
     Some (Inl (ValueError ''Must call start prior to good or bad''), fresh_process)
   \<and> (\<exists>r st'. command_line_usage 1 [''bisect_helper.py'', ''good''] started = Some (r, st')
          \<and> exit_status r = 0
          \<and> persisted_cursor st' = (Inr ''aot_eager'', Inr []))
   \<and> (\<exists>r st'. command_line_usage 1 [''bisect_helper.py'', ''bad'']
                  (update_run_state ''inductor'' ''post_grad_passes'' ''test_disable''
                     (update_bisect_status ''inductor'' ''post_grad_passes'' fresh_process)) =
                Some (r, st')
          \<and> exit_status r = 0
          \<and> persisted_cursor st' = (Inr ''inductor'', Inr ''lowerings'')
          \<and> get_run_state st' ''inductor'' ''lowerings'' = ''test_disable'')
   \<and> (\<exists>r st'. command_line_usage 1 [''bisect_helper.py'', ''good''] (bisecting 0 7) = Some (r, st')
          \<and> exit_status r = 0
          \<and> get_bisect_range st' ''inductor'' ''lowerings'' = Inr (4, 7))"
proof -
  let ?p = "''bisect_helper.py''"
  let ?s2 = "update_run_state ''inductor'' ''post_grad_passes'' ''test_disable''
               (update_bisect_status ''inductor'' ''post_grad_passes'' (fresh_process :: nat state))"
  have good: "''good'' = ''good'' \<or> ''good'' = ''bad''"
    and bad: "''bad'' = ''good'' \<or> ''bad'' = ''bad''" by simp_all
  have b0: "get_backend (fresh_process :: nat state) = Inr []"
    and s0: "get_subsystem (fresh_process :: nat state) = Inr []" by code_simp+
  have b1: "get_backend started = Inr ''eager''"
    and s1: "get_subsystem started = Inr []"
    and n1: "no_fatal_error ''good'' ''eager'' [] started" by code_simp+
  have b2: "get_backend ?s2 = Inr ''inductor''"
    and s2: "get_subsystem ?s2 = Inr ''post_grad_passes''"
    and n2: "no_fatal_error ''bad'' ''inductor'' ''post_grad_passes'' ?s2"
    and r2: "get_run_state ?s2 ''inductor'' ''post_grad_passes'' = ''test_disable''"
    by code_simp+
  have b3: "get_backend (bisecting 0 7) = Inr ''inductor''"
    and s3: "get_subsystem (bisecting 0 7) = Inr ''lowerings''"
    and n3: "no_fatal_error ''good'' ''inductor'' ''lowerings'' (bisecting 0 7)"
    and r3: "get_run_state (bisecting 0 7) ''inductor'' ''lowerings'' = ''bisect''"
    by code_simp+
  have g3: "get_bisect_range (bisecting 0 7) ''inductor'' ''lowerings'' = Inr (0, 7)"
    by (simp add: bisecting_def)
  have w0: "command_line_usage 1 [?p, ''good''] (fresh_process :: nat state) =
              Some (Inl (ValueError ''Must call start prior to good or bad''), fresh_process)"
    using good_bad_one_step [OF good b0 s0, of 1 ?p] by blast
  have w1: "\<exists>r st'. command_line_usage 1 [?p, ''good''] started = Some (r, st')
              \<and> exit_status r = 0 \<and> persisted_cursor st' = (Inr ''aot_eager'', Inr [])"
    using good_bad_one_step [OF good b1 s1, of 0 ?p] n1
    by (simp add: transition_persisted_def next_in_order_values
        del: One_nat_def add: One_nat_def [symmetric])
  have w2: "\<exists>r st'. command_line_usage 1 [?p, ''bad''] ?s2 = Some (r, st')
              \<and> exit_status r = 0
              \<and> persisted_cursor st' = (Inr ''inductor'', Inr ''lowerings'')
              \<and> get_run_state st' ''inductor'' ''lowerings'' = ''test_disable''"
    using good_bad_one_step [OF bad b2 s2, of 0 ?p] n2 r2
    by (simp add: transition_persisted_def next_in_order_values subsystems_of_def BACKENDS_def
        del: One_nat_def add: One_nat_def [symmetric])
  have w3: "\<exists>r st'. command_line_usage 1 [?p, ''good''] (bisecting 0 7) = Some (r, st')
              \<and> exit_status r = 0
              \<and> get_bisect_range st' ''inductor'' ''lowerings'' = Inr (4, 7)"
    using good_bad_one_step [OF good b3 s3, of 0 ?p] n3 r3 g3
    by (auto simp add: transition_persisted_def
        simp del: One_nat_def simp add: One_nat_def [symmetric])
  from w0 w1 w2 w3 show ?thesis by blast
qed

text \<open>
  C10 as stated fails: in a session whose run state is \<open>find_max_bounds\<close>, the command
  \<open>good\<close> raises \<open>RuntimeError\<close>, and the process ends with status 1.
\<close>

theorem good_in_find_max_bounds_counterexample:
  "get_backend (session_in ''find_max_bounds'') = Inr ''inductor''
   \<and> map_option fst
        (command_line_usage 1 [''bisect_helper.py'', ''good''] (session_in ''find_max_bounds'')) =
       Some (Inl (RuntimeError
                    ''Function succeeded with 'find_max_bounds' status for inductor - lowerings.''))
   \<and> map_option (exit_status \<circ> fst)
        (command_line_usage 1 [''bisect_helper.py'', ''good''] (session_in ''find_max_bounds'')) =
       Some 1"
  by code_simp

end
